theory Spec2Isabelle
  imports Main "HOL-Library.Finite_Map"
begin

section \<open>Graph model (\<open>src/web/src/types/index.ts\<close>)\<close>

text \<open>
  The field \<open>id\<close> of \<open>GraphNode\<close> is called \<open>id_node\<close> here, since \<open>id\<close> is the
  identity function of HOL.
\<close>

record GraphNode =
  id_node :: string
  name :: string
  inputs :: "string list"
  outputs :: "string list"
  tags :: "string list"

record GraphEdge =
  from_node :: string
  from_output :: string
  to_node :: string
  to_input :: string

section \<open>Layout engine: \<open>calculateLayout\<close> (\<open>src/unnamed/part_009\<close>, the operator graph component)\<close>

text \<open>
  A JavaScript number as the in-degree table holds it: an integer count, or \<open>NaN\<close>, which
  is what \<open>undefined - 1\<close> evaluates to.
\<close>

datatype jsnum = Num int | NaN

text \<open>
  The two statements of \<open>calculateLayout\<close> that can throw: \<open>layers[lastLayer].push\<close>
  throws a \<open>TypeError\<close> on an index that holds no array, and the spread call
  \<open>Math.max(...layers.map(..))\<close> throws a \<open>RangeError\<close> when it is given more arguments
  than the engine accepts. Every other read goes through \<open>?.\<close>, \<open>||\<close> or arithmetic on
  \<open>undefined\<close>, none of which throws. The largest number of arguments a call may take is
  a property of the engine; it is a parameter, \<open>argumentLimit\<close>, of the model.
\<close>

datatype error = TypeError | RangeError

definition HORIZONTAL_SPACING :: int where
  "HORIZONTAL_SPACING = 280"

definition VERTICAL_SPACING :: int where
  "VERTICAL_SPACING = 100"

subsection \<open>Adjacency lists\<close>

record adjacency =
  inDegree :: "(string, jsnum) fmap"
  outEdges :: "string \<rightharpoonup> string list"
  inEdges :: "string \<rightharpoonup> string list"

definition initNode :: "GraphNode \<Rightarrow> adjacency \<Rightarrow> adjacency" where
  "initNode node a =
     \<lparr>inDegree = fmupd (id_node node) (Num 0) (inDegree a),
      outEdges = (outEdges a)(id_node node \<mapsto> []),
      inEdges = (inEdges a)(id_node node \<mapsto> [])\<rparr>"

text \<open>\<open>(inDegree.get(k) || 0) + 1\<close>: \<open>undefined\<close>, \<open>0\<close> and \<open>NaN\<close> are falsy.\<close>

fun orZeroPlusOne :: "jsnum option \<Rightarrow> jsnum" where
  "orZeroPlusOne None = Num 1"
| "orZeroPlusOne (Some NaN) = Num 1"
| "orZeroPlusOne (Some (Num n)) = Num (n + 1)"

text \<open>\<open>m.get(k)?.push(v)\<close>: nothing happens when \<open>k\<close> is not a key.\<close>

definition pushAt :: "(string \<rightharpoonup> string list) \<Rightarrow> string \<Rightarrow> string \<Rightarrow> (string \<rightharpoonup> string list)" where
  "pushAt m k v = (case m k of None \<Rightarrow> m | Some xs \<Rightarrow> m(k \<mapsto> xs @ [v]))"

definition addEdge :: "GraphEdge \<Rightarrow> adjacency \<Rightarrow> adjacency" where
  "addEdge edge a =
     \<lparr>inDegree = fmupd (to_node edge) (orZeroPlusOne (fmlookup (inDegree a) (to_node edge))) (inDegree a),
      outEdges = pushAt (outEdges a) (from_node edge) (to_node edge),
      inEdges = pushAt (inEdges a) (to_node edge) (from_node edge)\<rparr>"

definition buildAdjacency :: "GraphNode list \<Rightarrow> GraphEdge list \<Rightarrow> adjacency" where
  "buildAdjacency nodes edges =
     fold addEdge edges
       (fold initNode nodes \<lparr>inDegree = fmempty, outEdges = Map.empty, inEdges = Map.empty\<rparr>)"

subsection \<open>Layering: the breadth-first sweep\<close>

record layering =
  layers :: "string list list"
  nodeLayer :: "string \<rightharpoonup> nat"
  visited :: "string set"
  degree :: "(string, jsnum) fmap"

text \<open>\<open>inDegree.get(targetId)! - 1\<close>; the \<open>!\<close> is erased at run time.\<close>

fun minusOne :: "jsnum option \<Rightarrow> jsnum" where
  "minusOne None = NaN"
| "minusOne (Some NaN) = NaN"
| "minusOne (Some (Num n)) = Num (n - 1)"

text \<open>The body of the inner \<open>forEach\<close> over the targets of one node.\<close>

definition relax :: "string set \<Rightarrow> string \<Rightarrow> (string, jsnum) fmap \<times> string list
    \<Rightarrow> (string, jsnum) fmap \<times> string list" where
  "relax vis targetId = (\<lambda>(deg, nextLayer).
     if targetId \<in> vis then (deg, nextLayer)
     else let remaining = minusOne (fmlookup deg targetId) in
       (fmupd targetId remaining deg,
        if remaining = Num 0 then nextLayer @ [targetId] else nextLayer))"

text \<open>\<open>outEdges.get(nodeId)?.forEach\<close>: the targets visited for one node.\<close>

definition targetsOf :: "(string \<rightharpoonup> string list) \<Rightarrow> string \<Rightarrow> string list" where
  "targetsOf oe nodeId = (case oe nodeId of None \<Rightarrow> [] | Some ts \<Rightarrow> ts)"

definition relaxLayer :: "(string \<rightharpoonup> string list) \<Rightarrow> string set \<Rightarrow> string list
    \<Rightarrow> (string, jsnum) fmap \<Rightarrow> (string, jsnum) fmap \<times> string list" where
  "relaxLayer oe vis currentLayer deg =
     fold (relax vis) (concat (map (targetsOf oe) currentLayer)) (deg, [])"

text \<open>Entries of the in-degree table that are still positive.\<close>

definition waiting :: "(string, jsnum) fmap \<Rightarrow> string set" where
  "waiting deg = {k \<in> fmdom' deg. \<exists>n. fmlookup deg k = Some (Num n) \<and> 0 < n}"

text \<open>The first \<open>forEach\<close> of the loop body, after \<open>layers.push(currentLayer)\<close>.\<close>

definition markLayer :: "nat \<Rightarrow> string list \<Rightarrow> (string \<rightharpoonup> nat) \<Rightarrow> (string \<rightharpoonup> nat)" where
  "markLayer i currentLayer nl = fold (\<lambda>nodeId m. m(nodeId \<mapsto> i)) currentLayer nl"

lemma waiting_finite: "finite (waiting deg)"
  by (simp add: waiting_def)

lemma waiting_fmupd:
  "waiting (fmupd k v deg) =
     (if (\<exists>n. v = Num n \<and> 0 < n) then insert k (waiting deg) else waiting deg - {k})"
  by (auto simp: waiting_def fmlookup_dom'_iff)

lemma relax_measure:
  assumes "relax vis t (deg, nx) = (deg', nx')"
  shows "card (waiting deg') + length nx' \<le> card (waiting deg) + length nx"
proof (cases "t \<in> vis")
  case True
  with assms show ?thesis by (simp add: relax_def)
next
  case False
  show ?thesis
  proof (cases "fmlookup deg t = Some (Num 1)")
    case True
    then have in_w: "t \<in> waiting deg"
      by (simp add: waiting_def fmlookup_dom'_iff)
    from True False assms have eqs: "deg' = fmupd t (Num 0) deg" "nx' = nx @ [t]"
      by (simp_all add: relax_def)
    have "card (waiting deg') = card (waiting deg) - 1"
      using in_w by (simp add: eqs waiting_fmupd)
    moreover have "0 < card (waiting deg)"
      using in_w waiting_finite card_gt_0_iff by blast
    ultimately show ?thesis by (simp add: eqs)
  next
    case notone: False
    then have rem: "minusOne (fmlookup deg t) \<noteq> Num 0"
      by (cases "fmlookup deg t" rule: minusOne.cases) auto
    with False assms have eqs: "deg' = fmupd t (minusOne (fmlookup deg t)) deg" "nx' = nx"
      by (simp_all add: relax_def Let_def)
    have "waiting deg' \<subseteq> waiting deg"
      unfolding eqs waiting_fmupd
      by (cases "fmlookup deg t" rule: minusOne.cases)
         (auto simp: waiting_def fmlookup_dom'_iff)
    then have "card (waiting deg') \<le> card (waiting deg)"
      by (simp add: card_mono waiting_finite)
    then show ?thesis by (simp add: eqs)
  qed
qed

lemma fold_relax_measure:
  "fold (relax vis) ts (deg, nx) = (deg', nx') \<Longrightarrow>
     card (waiting deg') + length nx' \<le> card (waiting deg) + length nx"
proof (induction ts arbitrary: deg nx)
  case Nil
  then show ?case by simp
next
  case (Cons t ts)
  obtain d1 n1 where step: "relax vis t (deg, nx) = (d1, n1)"
    by (cases "relax vis t (deg, nx)")
  with Cons.prems have "fold (relax vis) ts (d1, n1) = (deg', nx')" by simp
  from Cons.IH [OF this] relax_measure [OF step] show ?case by linarith
qed

lemma relaxLayer_measure:
  "relaxLayer oe vis cur deg = (deg', nx) \<Longrightarrow> card (waiting deg') + length nx \<le> card (waiting deg)"
  unfolding relaxLayer_def by (drule fold_relax_measure) simp

function sweep :: "(string \<rightharpoonup> string list) \<Rightarrow> string list \<Rightarrow> layering \<Rightarrow> layering" where
  "sweep oe currentLayer st =
     (if currentLayer = [] then st
      else
        let layers' = layers st @ [currentLayer];
            nodeLayer' = markLayer (length layers' - 1) currentLayer (nodeLayer st);
            visited' = visited st \<union> set currentLayer
        in case relaxLayer oe visited' currentLayer (degree st) of
             (deg', nextLayer) \<Rightarrow>
               sweep oe nextLayer
                 \<lparr>layers = layers', nodeLayer = nodeLayer', visited = visited', degree = deg'\<rparr>)"
  by pat_completeness auto
termination
proof (relation "measure (\<lambda>(oe, cur, st). card (waiting (degree st)) + (if cur = [] then 0 else 1))",
    goal_cases)
  case 1
  show ?case by simp
next
  case (2 oe currentLayer st ls nl vs deg' nextLayer)
  then have "relaxLayer oe vs currentLayer (degree st) = (deg', nextLayer)" by simp
  from relaxLayer_measure [OF this]
  have "card (waiting deg') + (if nextLayer = [] then 0 else 1) \<le> card (waiting (degree st))"
    by (cases nextLayer) auto
  with 2 show ?case by simp
qed

declare sweep.simps [simp del]

subsection \<open>Layering: the remaining nodes\<close>

text \<open>\<open>layers[i]\<close>: \<open>undefined\<close> (\<open>None\<close>) outside the array.\<close>

definition layerAt :: "string list list \<Rightarrow> nat \<Rightarrow> string list option" where
  "layerAt ls i = (if i < length ls then Some (ls ! i) else None)"

text \<open>
  The body of the second \<open>nodes.forEach\<close>. An array is truthy and \<open>undefined\<close> is falsy,
  so \<open>!layers[lastLayer]\<close> holds exactly when the index is outside the array; \<open>push\<close>
  on \<open>undefined\<close> would throw a \<open>TypeError\<close>.
\<close>

definition placeRemaining :: "string \<Rightarrow> layering \<Rightarrow> error + layering" where
  "placeRemaining nodeId st =
     (if nodeId \<in> visited st then Inr st
      else
        let lastLayer = (if length (layers st) > 0 then length (layers st) else 0);
            layers1 = (case layerAt (layers st) lastLayer of
                         None \<Rightarrow> layers st @ [[]]
                       | Some l \<Rightarrow> layers st)
        in case layerAt layers1 lastLayer of
             None \<Rightarrow> Inl TypeError
           | Some l \<Rightarrow>
               Inr (st\<lparr>layers := layers1[lastLayer := l @ [nodeId]],
                       nodeLayer := (nodeLayer st)(nodeId \<mapsto> lastLayer)\<rparr>))"

fun placeAllRemaining :: "string list \<Rightarrow> layering \<Rightarrow> error + layering" where
  "placeAllRemaining [] st = Inr st"
| "placeAllRemaining (nodeId # rest) st =
     (case placeRemaining nodeId st of
        Inl e \<Rightarrow> Inl e
      | Inr st' \<Rightarrow> placeAllRemaining rest st')"

subsection \<open>Barycenter ordering\<close>

text \<open>\<open>layer.forEach((nodeId, index) => nodeYPosition.set(nodeId, index))\<close>\<close>

definition setPositions :: "string list \<Rightarrow> (string \<rightharpoonup> nat) \<Rightarrow> (string \<rightharpoonup> nat)" where
  "setPositions layer ypos = fold (\<lambda>(index, nodeId) m. m(nodeId \<mapsto> index)) (enumerate 0 layer) ypos"

text \<open>\<open>nodeYPosition.get(p) || 0\<close>\<close>

definition posOrZero :: "(string \<rightharpoonup> nat) \<Rightarrow> string \<Rightarrow> rat" where
  "posOrZero ypos p = (case ypos p of None \<Rightarrow> 0 | Some v \<Rightarrow> of_nat v)"

text \<open>
  \<open>xs.reduce((sum, p) => sum + (nodeYPosition.get(p) || 0), 0) / xs.length\<close>. The
  positions are array indices, so the sum is exact; the quotient is taken as a rational
  number.
\<close>

definition average :: "(string \<rightharpoonup> nat) \<Rightarrow> string list \<Rightarrow> rat" where
  "average ypos xs = fold (\<lambda>p sum. sum + posOrZero ypos p) xs 0 / of_nat (length xs)"

text \<open>\<open>m.get(nodeId) || []\<close>: an array, even an empty one, is truthy.\<close>

definition neighbours :: "(string \<rightharpoonup> string list) \<Rightarrow> string \<Rightarrow> string list" where
  "neighbours m nodeId = (case m nodeId of None \<Rightarrow> [] | Some xs \<Rightarrow> xs)"

definition forwardBarycenter :: "(string \<rightharpoonup> string list) \<Rightarrow> (string \<rightharpoonup> nat) \<Rightarrow> string \<Rightarrow> rat" where
  "forwardBarycenter ie ypos nodeId =
     (let parents = neighbours ie nodeId in
      if length parents > 0 then average ypos parents else 0)"

definition backwardBarycenter :: "(string \<rightharpoonup> string list) \<Rightarrow> (string \<rightharpoonup> nat) \<Rightarrow> string \<Rightarrow> rat" where
  "backwardBarycenter oe ypos nodeId =
     (let children = neighbours oe nodeId in
      if length children > 0 then average ypos children else posOrZero ypos nodeId)"

text \<open>
  \<open>barycenters.sort((a, b) => a.bc - b.bc)\<close> followed by \<open>map((b) => b.id)\<close>.
  \<open>Array.prototype.sort\<close> is stable, as \<open>sort_key\<close> is.
\<close>

definition sortByBarycenter :: "(string \<Rightarrow> rat) \<Rightarrow> string list \<Rightarrow> string list" where
  "sortByBarycenter bc layer = map fst (sort_key snd (map (\<lambda>nodeId. (nodeId, bc nodeId)) layer))"

text \<open>One iteration of either \<open>for\<close> loop; both read \<open>layers[i]\<close> inside the array only.\<close>

definition orderLayer :: "((string \<rightharpoonup> nat) \<Rightarrow> string \<Rightarrow> rat) \<Rightarrow> nat
    \<Rightarrow> string list list \<times> (string \<rightharpoonup> nat) \<Rightarrow> string list list \<times> (string \<rightharpoonup> nat)" where
  "orderLayer bc i = (\<lambda>(ls, ypos).
     let newLayer = sortByBarycenter (bc ypos) (ls ! i)
     in (ls[i := newLayer], setPositions newLayer ypos))"

definition forwardPass :: "(string \<rightharpoonup> string list) \<Rightarrow> string list list \<times> (string \<rightharpoonup> nat)
    \<Rightarrow> string list list \<times> (string \<rightharpoonup> nat)" where
  "forwardPass ie lp = fold (orderLayer (forwardBarycenter ie)) [1..<length (fst lp)] lp"

definition backwardPass :: "(string \<rightharpoonup> string list) \<Rightarrow> string list list \<times> (string \<rightharpoonup> nat)
    \<Rightarrow> string list list \<times> (string \<rightharpoonup> nat)" where
  "backwardPass oe lp = fold (orderLayer (backwardBarycenter oe)) (rev [0..<length (fst lp) - 1]) lp"

subsection \<open>Coordinates\<close>

type_synonym position = "int \<times> int"

text \<open>
  \<open>Math.max(...layers.map((l) => l.length))\<close>: one argument for each layer, and a
  \<open>RangeError\<close> when these are more than the engine accepts. With no layer at all
  JavaScript gives \<open>-Infinity\<close>; then no position is written and the value is never read.
\<close>

definition maxLayerSize :: "int \<Rightarrow> string list list \<Rightarrow> error + int" where
  "maxLayerSize argumentLimit ls =
     (if argumentLimit < int (length ls) then Inl RangeError
      else Inr (fold max (map (\<lambda>l. int (length l)) ls) 0))"

text \<open>
  \<open>offsetY = (maxHeight - layerHeight) / 2\<close>: both heights are multiples of
  \<open>VERTICAL_SPACING = 100\<close>, so the division by two is exact.
\<close>

definition placeLayer :: "int \<Rightarrow> nat \<times> string list \<Rightarrow> (string \<rightharpoonup> position) \<Rightarrow> (string \<rightharpoonup> position)" where
  "placeLayer maxSize = (\<lambda>(layerIndex, layer) positions.
     let layerHeight = int (length layer) * VERTICAL_SPACING;
         maxHeight = maxSize * VERTICAL_SPACING;
         offsetY = (maxHeight - layerHeight) div 2
     in fold (\<lambda>(nodeIndex, nodeId) m.
               m(nodeId \<mapsto> (int layerIndex * HORIZONTAL_SPACING, offsetY + int nodeIndex * VERTICAL_SPACING)))
          (enumerate 0 layer) positions)"

definition assignPositions :: "int \<Rightarrow> string list list \<Rightarrow> error + (string \<rightharpoonup> position)" where
  "assignPositions argumentLimit ls =
     (case maxLayerSize argumentLimit ls of
        Inl e \<Rightarrow> Inl e
      | Inr maxSize \<Rightarrow> Inr (fold (placeLayer maxSize) (enumerate 0 ls) Map.empty))"

subsection \<open>The whole function\<close>

definition initialLayer :: "GraphNode list \<Rightarrow> (string, jsnum) fmap \<Rightarrow> string list" where
  "initialLayer nodes deg = map id_node (filter (\<lambda>n. fmlookup deg (id_node n) = Some (Num 0)) nodes)"

text \<open>The state when the \<open>while\<close> loop has ended.\<close>

definition topologicalSweep :: "GraphNode list \<Rightarrow> GraphEdge list \<Rightarrow> layering" where
  "topologicalSweep nodes edges =
     (let adj = buildAdjacency nodes edges in
      sweep (outEdges adj) (initialLayer nodes (inDegree adj))
        \<lparr>layers = [], nodeLayer = Map.empty, visited = {}, degree = inDegree adj\<rparr>)"

text \<open>The layers as they stand after the sweep and the pass over the remaining nodes.\<close>

definition assignLayers :: "GraphNode list \<Rightarrow> GraphEdge list \<Rightarrow> error + layering" where
  "assignLayers nodes edges =
     placeAllRemaining (map id_node nodes) (topologicalSweep nodes edges)"

text \<open>The layers after both barycenter passes.\<close>

definition orderLayers :: "adjacency \<Rightarrow> string list list \<Rightarrow> string list list" where
  "orderLayers adj ls =
     (let ypos0 = (case layerAt ls 0 of None \<Rightarrow> Map.empty | Some l \<Rightarrow> setPositions l Map.empty)
      in fst (backwardPass (outEdges adj) (forwardPass (inEdges adj) (ls, ypos0))))"

definition calculateLayout :: "int \<Rightarrow> GraphNode list \<Rightarrow> GraphEdge list \<Rightarrow> error + (string \<rightharpoonup> position)" where
  "calculateLayout argumentLimit nodes edges =
     (if length nodes = 0 then Inr Map.empty
      else case assignLayers nodes edges of
             Inl e \<Rightarrow> Inl e
           | Inr st \<Rightarrow>
               assignPositions argumentLimit (orderLayers (buildAdjacency nodes edges) (layers st)))"

subsection \<open>Vocabulary for the properties\<close>

text \<open>The declared node ids of a graph.\<close>

definition declared :: "GraphNode list \<Rightarrow> string set" where
  "declared nodes = id_node ` set nodes"

text \<open>A node and an edge with nothing but the ids, for concrete graphs.\<close>

definition plainNode :: "string \<Rightarrow> GraphNode" where
  "plainNode i = \<lparr>id_node = i, name = i, inputs = [], outputs = [], tags = []\<rparr>"

definition plainEdge :: "string \<Rightarrow> string \<Rightarrow> GraphEdge" where
  "plainEdge a b = \<lparr>from_node = a, from_output = ''out'', to_node = b, to_input = ''in''\<rparr>"

text \<open>
  The argument limit under which the concrete graphs below are laid out. Engines accept
  tens of thousands of arguments or more, and these graphs have a handful of layers, so
  any such limit gives the same.
\<close>

definition exampleLimit :: int where
  "exampleLimit = 65536"

text \<open>The entries of a returned position map at the given keys.\<close>

definition positionsAt :: "error + (string \<rightharpoonup> position) \<Rightarrow> string list \<Rightarrow> error + position option list" where
  "positionsAt r ks = (case r of Inl e \<Rightarrow> Inl e | Inr positions \<Rightarrow> Inr (map positions ks))"

section \<open>Layout engine: lemmas\<close>

subsection \<open>The adjacency lists in closed form\<close>

lemma pushAt_apply:
  "pushAt m k v k' = (if k' = k then map_option (\<lambda>xs. xs @ [v]) (m k) else m k')"
  by (auto simp: pushAt_def split: option.splits)

lemma outEdges_addEdge: "outEdges (addEdge e a) = pushAt (outEdges a) (from_node e) (to_node e)"
  by (simp add: addEdge_def)

lemma inEdges_addEdge: "inEdges (addEdge e a) = pushAt (inEdges a) (to_node e) (from_node e)"
  by (simp add: addEdge_def)

lemma inDegree_addEdge:
  "inDegree (addEdge e a) = fmupd (to_node e) (orZeroPlusOne (fmlookup (inDegree a) (to_node e))) (inDegree a)"
  by (simp add: addEdge_def)

lemma outEdges_initNode: "outEdges (initNode n a) = (outEdges a)(id_node n \<mapsto> [])"
  by (simp add: initNode_def)

lemma inEdges_initNode: "inEdges (initNode n a) = (inEdges a)(id_node n \<mapsto> [])"
  by (simp add: initNode_def)

lemma inDegree_initNode: "inDegree (initNode n a) = fmupd (id_node n) (Num 0) (inDegree a)"
  by (simp add: initNode_def)

lemma outEdges_fold_addEdge:
  "outEdges (fold addEdge es a) k =
     map_option (\<lambda>ts. ts @ map to_node (filter (\<lambda>e. from_node e = k) es)) (outEdges a k)"
proof (induction es arbitrary: a)
  case Nil
  show ?case by (simp add: option.map_ident)
next
  case (Cons e es)
  show ?case
    by (simp add: Cons.IH outEdges_addEdge pushAt_apply option.map_comp comp_def)
qed

lemma inEdges_fold_addEdge:
  "inEdges (fold addEdge es a) k =
     map_option (\<lambda>ts. ts @ map from_node (filter (\<lambda>e. to_node e = k) es)) (inEdges a k)"
proof (induction es arbitrary: a)
  case Nil
  show ?case by (simp add: option.map_ident)
next
  case (Cons e es)
  show ?case
    by (simp add: Cons.IH inEdges_addEdge pushAt_apply option.map_comp comp_def)
qed

lemma outEdges_fold_initNode:
  "outEdges (fold initNode ns a) k = (if k \<in> id_node ` set ns then Some [] else outEdges a k)"
  by (induction ns arbitrary: a) (auto simp: outEdges_initNode inEdges_initNode inDegree_initNode)

lemma inEdges_fold_initNode:
  "inEdges (fold initNode ns a) k = (if k \<in> id_node ` set ns then Some [] else inEdges a k)"
  by (induction ns arbitrary: a) (auto simp: outEdges_initNode inEdges_initNode inDegree_initNode)

lemma inDegree_fold_initNode:
  "fmlookup (inDegree (fold initNode ns a)) k =
     (if k \<in> id_node ` set ns then Some (Num 0) else fmlookup (inDegree a) k)"
  by (induction ns arbitrary: a) (auto simp: outEdges_initNode inEdges_initNode inDegree_initNode)

lemma outEdges_buildAdjacency:
  "outEdges (buildAdjacency ns es) k =
     (if k \<in> id_node ` set ns then Some (map to_node (filter (\<lambda>e. from_node e = k) es)) else None)"
  by (simp add: buildAdjacency_def outEdges_fold_addEdge outEdges_fold_initNode)

lemma inEdges_buildAdjacency:
  "inEdges (buildAdjacency ns es) k =
     (if k \<in> id_node ` set ns then Some (map from_node (filter (\<lambda>e. to_node e = k) es)) else None)"
  by (simp add: buildAdjacency_def inEdges_fold_addEdge inEdges_fold_initNode)

lemma targetsOf_buildAdjacency:
  "targetsOf (outEdges (buildAdjacency ns es)) k =
     (if k \<in> id_node ` set ns then map to_node (filter (\<lambda>e. from_node e = k) es) else [])"
  by (simp add: targetsOf_def outEdges_buildAdjacency)

lemma inDegree_fold_addEdge_Num:
  "fmlookup (inDegree a) k = Some (Num c) \<Longrightarrow>
   fmlookup (inDegree (fold addEdge es a)) k = Some (Num (c + int (length (filter (\<lambda>e. to_node e = k) es))))"
proof (induction es arbitrary: a c)
  case Nil
  then show ?case by simp
next
  case (Cons e es)
  show ?case
  proof (cases "to_node e = k")
    case True
    with Cons.prems have "fmlookup (inDegree (addEdge e a)) k = Some (Num (c + 1))"
      by (simp add: inDegree_addEdge)
    from Cons.IH [OF this] True show ?thesis by simp
  next
    case False
    with Cons.prems have "fmlookup (inDegree (addEdge e a)) k = Some (Num c)"
      by (simp add: inDegree_addEdge)
    from Cons.IH [OF this] False show ?thesis by simp
  qed
qed

lemma inDegree_fold_addEdge_None:
  "fmlookup (inDegree a) k = None \<Longrightarrow>
   fmlookup (inDegree (fold addEdge es a)) k =
     (if filter (\<lambda>e. to_node e = k) es = [] then None
      else Some (Num (int (length (filter (\<lambda>e. to_node e = k) es)))))"
proof (induction es arbitrary: a)
  case Nil
  then show ?case by simp
next
  case (Cons e es)
  show ?case
  proof (cases "to_node e = k")
    case True
    with Cons.prems have "fmlookup (inDegree (addEdge e a)) k = Some (Num 1)"
      by (simp add: inDegree_addEdge)
    from inDegree_fold_addEdge_Num [OF this] True show ?thesis by simp
  next
    case False
    with Cons.prems have "fmlookup (inDegree (addEdge e a)) k = None"
      by (simp add: inDegree_addEdge)
    from Cons.IH [OF this] False show ?thesis by simp
  qed
qed

lemma inDegree_buildAdjacency:
  "fmlookup (inDegree (buildAdjacency ns es)) k =
     (if k \<in> id_node ` set ns \<or> filter (\<lambda>e. to_node e = k) es \<noteq> []
      then Some (Num (int (length (filter (\<lambda>e. to_node e = k) es)))) else None)"
proof (cases "k \<in> id_node ` set ns")
  case True
  then have "fmlookup (inDegree (fold initNode ns \<lparr>inDegree = fmempty, outEdges = Map.empty, inEdges = Map.empty\<rparr>)) k = Some (Num 0)"
    by (simp add: inDegree_fold_initNode)
  from inDegree_fold_addEdge_Num [OF this] True show ?thesis
    by (simp add: buildAdjacency_def)
next
  case False
  then have "fmlookup (inDegree (fold initNode ns \<lparr>inDegree = fmempty, outEdges = Map.empty, inEdges = Map.empty\<rparr>)) k = None"
    by (simp add: inDegree_fold_initNode)
  from inDegree_fold_addEdge_None [OF this] False show ?thesis
    by (simp add: buildAdjacency_def)
qed

subsection \<open>Unfolding the sweep\<close>

lemma sweep_Nil: "sweep oe [] st = st"
  by (simp add: sweep.simps)

lemma sweep_step:
  assumes "cur \<noteq> []" and "relaxLayer oe (visited st \<union> set cur) cur (degree st) = (deg', nx)"
  shows "sweep oe cur st =
     sweep oe nx \<lparr>layers = layers st @ [cur],
                  nodeLayer = markLayer (length (layers st)) cur (nodeLayer st),
                  visited = visited st \<union> set cur, degree = deg'\<rparr>"
  using assms by (subst sweep.simps) (simp add: Let_def)

lemma sweep_induct [case_names Nil step]:
  assumes "\<And>st. P [] st"
    and "\<And>cur st deg' nx. cur \<noteq> [] \<Longrightarrow>
           relaxLayer oe (visited st \<union> set cur) cur (degree st) = (deg', nx) \<Longrightarrow>
           P nx \<lparr>layers = layers st @ [cur],
                  nodeLayer = markLayer (length (layers st)) cur (nodeLayer st),
                  visited = visited st \<union> set cur, degree = deg'\<rparr> \<Longrightarrow>
           P cur st"
  shows "P cur st"
proof (induction "card (waiting (degree st)) + (if cur = [] then 0 else (1::nat))"
    arbitrary: cur st rule: less_induct)
  case less
  show ?case
  proof (cases "cur = []")
    case True
    then show ?thesis by (simp add: assms(1))
  next
    case False
    obtain deg' nx where r: "relaxLayer oe (visited st \<union> set cur) cur (degree st) = (deg', nx)"
      by (cases "relaxLayer oe (visited st \<union> set cur) cur (degree st)")
    from relaxLayer_measure [OF r]
    have "card (waiting deg') + (if nx = [] then 0 else 1) \<le> card (waiting (degree st))"
      by (cases nx) auto
    with False have "P nx \<lparr>layers = layers st @ [cur],
                  nodeLayer = markLayer (length (layers st)) cur (nodeLayer st),
                  visited = visited st \<union> set cur, degree = deg'\<rparr>"
      by (intro less.hyps) simp
    with False r show ?thesis by (rule assms(2))
  qed
qed

subsection \<open>What the sweep puts into the layers\<close>

lemma relax_next:
  "relax vis t (deg, nx) = (deg', nx') \<Longrightarrow> set nx' \<subseteq> set nx \<union> ({t} - vis)"
  by (auto simp: relax_def Let_def split: if_splits)

lemma fold_relax_next:
  "fold (relax vis) ts (deg, nx) = (deg', nx') \<Longrightarrow> set nx' \<subseteq> set nx \<union> (set ts - vis)"
proof (induction ts arbitrary: deg nx)
  case Nil
  then show ?case by simp
next
  case (Cons t ts)
  obtain d1 n1 where step: "relax vis t (deg, nx) = (d1, n1)"
    by (cases "relax vis t (deg, nx)")
  with Cons.prems have "fold (relax vis) ts (d1, n1) = (deg', nx')" by simp
  from Cons.IH [OF this] relax_next [OF step] show ?case by auto
qed

lemma relaxLayer_next:
  assumes "relaxLayer oe vis cur deg = (deg', nx)"
  shows "set nx \<subseteq> (\<Union>n\<in>set cur. set (targetsOf oe n)) - vis"
  using fold_relax_next [OF assms [unfolded relaxLayer_def]] by auto

lemma sweep_visited:
  "visited st = set (concat (layers st)) \<Longrightarrow>
     visited (sweep oe cur st) = set (concat (layers (sweep oe cur st)))"
proof (induction cur st rule: sweep_induct [where oe = oe])
  case (Nil st)
  then show ?case by (simp add: sweep_Nil)
next
  case (step cur st deg' nx)
  let ?st = "\<lparr>layers = layers st @ [cur],
              nodeLayer = markLayer (length (layers st)) cur (nodeLayer st),
              visited = visited st \<union> set cur, degree = deg'\<rparr>"
  from step.prems have "visited ?st = set (concat (layers ?st))" by simp
  from step.IH [OF this] show ?case
    by (simp only: sweep_step [OF step.hyps(1,2)])
qed

lemma sweep_lower:
  "set (concat (layers st)) \<union> set cur \<subseteq> set (concat (layers (sweep oe cur st)))"
proof (induction cur st rule: sweep_induct [where oe = oe])
  case (Nil st)
  then show ?case by (simp add: sweep_Nil)
next
  case (step cur st deg' nx)
  from step.IH show ?case
    by (simp add: sweep_step [OF step.hyps(1,2)])
qed

lemma sweep_upper:
  "set (concat (layers (sweep oe cur st))) \<subseteq>
     set (concat (layers st)) \<union> set cur \<union> (\<Union>n. set (targetsOf oe n))"
proof (induction cur st rule: sweep_induct [where oe = oe])
  case (Nil st)
  then show ?case by (simp add: sweep_Nil)
next
  case (step cur st deg' nx)
  from relaxLayer_next [OF step.hyps(2)] have "set nx \<subseteq> (\<Union>n. set (targetsOf oe n))"
    by auto
  with step.IH show ?case
    by (auto simp add: sweep_step [OF step.hyps(1,2)])
qed

subsection \<open>Remaining nodes\<close>

lemma placeRemaining_eq:
  "placeRemaining nodeId st =
     Inr (if nodeId \<in> visited st then st
          else st\<lparr>layers := layers st @ [[nodeId]],
                  nodeLayer := (nodeLayer st)(nodeId \<mapsto> length (layers st))\<rparr>)"
  by (simp add: placeRemaining_def layerAt_def Let_def)

lemma placeAllRemaining_eq:
  "placeAllRemaining ns st =
     Inr (st\<lparr>layers := layers st @ map (\<lambda>n. [n]) (filter (\<lambda>n. n \<notin> visited st) ns),
             nodeLayer := fold (\<lambda>(i, n) m. m(n \<mapsto> i))
                (enumerate (length (layers st)) (filter (\<lambda>n. n \<notin> visited st) ns)) (nodeLayer st)\<rparr>)"
proof (induction ns arbitrary: st)
  case Nil
  show ?case by simp
next
  case (Cons n ns)
  show ?case
    by (simp add: placeRemaining_eq Cons.IH fun_upd_def)
qed

subsection \<open>Ordering keeps the members of every layer\<close>

lemma set_sortByBarycenter: "set (sortByBarycenter bc layer) = set layer"
  by (simp add: sortByBarycenter_def image_image)

lemma orderLayer_sets: "map set (fst (orderLayer bc i lp)) = map set (fst lp)"
proof (cases lp)
  case (Pair ls ypos)
  show ?thesis
  proof (cases "i < length ls")
    case True
    then show ?thesis
      by (simp add: Pair orderLayer_def Let_def map_update set_sortByBarycenter list_update_same_conv)
  next
    case False
    then show ?thesis by (simp add: Pair orderLayer_def Let_def list_update_beyond)
  qed
qed

lemma fold_orderLayer_sets: "map set (fst (fold (orderLayer bc) is lp)) = map set (fst lp)"
  by (induction "is" arbitrary: lp) (simp_all add: orderLayer_sets)

lemma orderLayers_sets: "map set (orderLayers adj ls) = map set ls"
  by (simp add: orderLayers_def forwardPass_def backwardPass_def fold_orderLayer_sets Let_def)

lemma set_concat_orderLayers: "set (concat (orderLayers adj ls)) = set (concat ls)"
proof -
  have "set (concat xs) = \<Union> (set (map set xs))" for xs :: "string list list" by simp
  then show ?thesis by (simp only: orderLayers_sets)
qed

subsection \<open>Positions\<close>

lemma dom_fold_put:
  "dom (fold (\<lambda>(i, n) m. m(n \<mapsto> f i n)) ps m) = dom m \<union> snd ` set ps"
  by (induction ps arbitrary: m) (auto simp: rev_image_eqI)

lemma snd_set_enumerate: "snd ` set (enumerate k xs) = set xs"
  by (metis list.set_map map_snd_enumerate)

lemma dom_placeLayer: "dom (placeLayer mx (i, l) m) = dom m \<union> set l"
  by (simp add: placeLayer_def Let_def dom_fold_put [where f = "\<lambda>a b. (g a, h a)" for g h] snd_set_enumerate)

lemma dom_fold_placeLayer: "dom (fold (placeLayer mx) ils m) = dom m \<union> \<Union> (set ` snd ` set ils)"
proof (induction ils arbitrary: m)
  case Nil
  show ?case by simp
next
  case (Cons il ils)
  obtain i l where il: "il = (i, l)" by (cases il)
  show ?case by (auto simp: Cons.IH il dom_placeLayer)
qed

lemma assignPositions_eq:
  "assignPositions lim ls =
     (if lim < int (length ls) then Inl RangeError
      else Inr (fold (placeLayer (fold max (map (\<lambda>l. int (length l)) ls) 0)) (enumerate 0 ls) Map.empty))"
  by (simp add: assignPositions_def maxLayerSize_def)

lemma dom_assignPositions:
  assumes "assignPositions lim ls = Inr positions"
  shows "dom positions = set (concat ls)"
proof -
  from assms have "positions =
      fold (placeLayer (fold max (map (\<lambda>l. int (length l)) ls) 0)) (enumerate 0 ls) Map.empty"
    by (simp add: assignPositions_eq split: if_splits)
  then show ?thesis
    by (simp add: dom_fold_placeLayer snd_set_enumerate)
qed

lemma length_orderLayers: "length (orderLayers adj ls) = length ls"
  using orderLayers_sets [of adj ls] by (metis length_map)

subsection \<open>The layering as a whole\<close>

lemma assignLayers_eq:
  "assignLayers nodes edges =
    (let sw = topologicalSweep nodes edges;
         rest = filter (\<lambda>n. n \<notin> visited sw) (map id_node nodes)
     in Inr (sw\<lparr>layers := layers sw @ map (\<lambda>n. [n]) rest,
                 nodeLayer := fold (\<lambda>(i, n) m. m(n \<mapsto> i))
                    (enumerate (length (layers sw)) rest) (nodeLayer sw)\<rparr>))"
  by (simp add: assignLayers_def placeAllRemaining_eq Let_def)

lemma assignLayers_total: "\<exists>st. assignLayers nodes edges = Inr st"
  by (simp add: assignLayers_eq Let_def)

lemma topologicalSweep_visited:
  "visited (topologicalSweep nodes edges) = set (concat (layers (topologicalSweep nodes edges)))"
  unfolding topologicalSweep_def Let_def by (rule sweep_visited) simp

lemma topologicalSweep_upper:
  "set (concat (layers (topologicalSweep nodes edges))) \<subseteq>
     declared nodes \<union> to_node ` {e \<in> set edges. from_node e \<in> declared nodes}"
proof -
  define adj where "adj = buildAdjacency nodes edges"
  have init: "set (initialLayer nodes (inDegree adj)) \<subseteq> declared nodes"
    by (auto simp: initialLayer_def declared_def)
  have targets: "(\<Union>n. set (targetsOf (outEdges adj) n))
                   \<subseteq> to_node ` {e \<in> set edges. from_node e \<in> declared nodes}"
    by (auto simp: adj_def targetsOf_buildAdjacency declared_def split: if_splits)
  have "set (concat (layers (topologicalSweep nodes edges))) \<subseteq>
          set (initialLayer nodes (inDegree adj)) \<union> (\<Union>n. set (targetsOf (outEdges adj) n))"
    unfolding topologicalSweep_def Let_def adj_def [symmetric]
    using sweep_upper [of "outEdges adj" "initialLayer nodes (inDegree adj)"
        "\<lparr>layers = [], nodeLayer = Map.empty, visited = {}, degree = inDegree adj\<rparr>"]
    by simp
  with init targets show ?thesis by blast
qed

lemma assignLayers_members:
  assumes "assignLayers nodes edges = Inr st"
  shows "declared nodes \<subseteq> set (concat (layers st))"
    and "set (concat (layers st)) \<subseteq>
           declared nodes \<union> to_node ` {e \<in> set edges. from_node e \<in> declared nodes}"
proof -
  define sw where "sw = topologicalSweep nodes edges"
  have vis: "visited sw = set (concat (layers sw))"
    unfolding sw_def by (rule topologicalSweep_visited)
  have st: "layers st = layers sw @ map (\<lambda>n. [n]) (filter (\<lambda>n. n \<notin> visited sw) (map id_node nodes))"
    using assms by (auto simp: assignLayers_eq Let_def sw_def)
  have members: "set (concat (layers st)) = set (concat (layers sw)) \<union> declared nodes"
    unfolding st using vis by (auto simp: declared_def)
  show "declared nodes \<subseteq> set (concat (layers st))"
    unfolding members by blast
  show "set (concat (layers st)) \<subseteq>
           declared nodes \<union> to_node ` {e \<in> set edges. from_node e \<in> declared nodes}"
    unfolding members using topologicalSweep_upper [of nodes edges] sw_def by blast
qed

subsection \<open>The number of layers\<close>

lemma sweep_length:
  "length (layers (sweep oe cur st))
     \<le> length (layers st) + (if cur = [] then 0 else 1) + card (waiting (degree st))"
proof (induction cur st rule: sweep_induct [where oe = oe])
  case (Nil st)
  then show ?case by (simp add: sweep_Nil)
next
  case (step cur st deg' nx)
  from relaxLayer_measure [OF step.hyps(2)]
  have "(if nx = [] then 0 else 1) + card (waiting deg') \<le> card (waiting (degree st))"
    by (cases nx) auto
  with step.IH step.hyps(1) show ?case
    unfolding sweep_step [OF step.hyps(1,2)] by simp
qed

lemma waiting_buildAdjacency:
  "card (waiting (inDegree (buildAdjacency nodes edges))) \<le> length edges"
proof -
  have "waiting (inDegree (buildAdjacency nodes edges)) \<subseteq> to_node ` set edges"
  proof
    fix k assume "k \<in> waiting (inDegree (buildAdjacency nodes edges))"
    then obtain n where "fmlookup (inDegree (buildAdjacency nodes edges)) k = Some (Num n)" "0 < n"
      by (auto simp: waiting_def)
    then have "filter (\<lambda>e. to_node e = k) edges \<noteq> []"
      by (auto simp: inDegree_buildAdjacency split: if_splits)
    then obtain e where "e \<in> set (filter (\<lambda>e. to_node e = k) edges)"
      by (cases "filter (\<lambda>e. to_node e = k) edges") auto
    then show "k \<in> to_node ` set edges" by auto
  qed
  then have "card (waiting (inDegree (buildAdjacency nodes edges))) \<le> card (to_node ` set edges)"
    by (simp add: card_mono)
  also have "\<dots> \<le> card (set edges)" by (simp add: card_image_le)
  also have "\<dots> \<le> length edges" by (rule card_length)
  finally show ?thesis .
qed

lemma assignLayers_length:
  assumes "assignLayers nodes edges = Inr st"
  shows "length (layers st) \<le> length nodes + length edges + 1"
proof -
  define adj where "adj = buildAdjacency nodes edges"
  define sw where "sw = topologicalSweep nodes edges"
  have "length (layers sw) \<le> 1 + card (waiting (inDegree adj))"
    unfolding sw_def topologicalSweep_def Let_def adj_def [symmetric]
    using sweep_length [of "outEdges adj" "initialLayer nodes (inDegree adj)"
        "\<lparr>layers = [], nodeLayer = Map.empty, visited = {}, degree = inDegree adj\<rparr>"]
    by (simp split: if_splits)
  with waiting_buildAdjacency [of nodes edges] have swept: "length (layers sw) \<le> 1 + length edges"
    unfolding adj_def by linarith
  have "length (layers st)
      = length (layers sw) + length (filter (\<lambda>n. n \<notin> visited sw) (map id_node nodes))"
    using assms by (auto simp: assignLayers_eq Let_def sw_def)
  also have "\<dots> \<le> length (layers sw) + length nodes"
    using length_filter_le [of "\<lambda>n. n \<notin> visited sw" "map id_node nodes"] by simp
  finally show ?thesis using swept by linarith
qed

lemma calculateLayout_returns:
  assumes "int (length nodes + length edges) < lim"
  shows "\<exists>positions. calculateLayout lim nodes edges = Inr positions"
proof (cases "nodes = []")
  case True
  then show ?thesis by (simp add: calculateLayout_def)
next
  case False
  obtain st where st: "assignLayers nodes edges = Inr st"
    using assignLayers_total by blast
  from assignLayers_length [OF st] assms
  have "\<not> lim < int (length (orderLayers (buildAdjacency nodes edges) (layers st)))"
    by (simp add: length_orderLayers)
  with False st show ?thesis
    by (simp add: calculateLayout_def assignPositions_eq)
qed

lemma calculateLayout_no_TypeError: "calculateLayout lim nodes edges \<noteq> Inl TypeError"
proof (cases "nodes = []")
  case True
  then show ?thesis by (simp add: calculateLayout_def)
next
  case False
  obtain st where st: "assignLayers nodes edges = Inr st"
    using assignLayers_total by blast
  with False show ?thesis
    by (simp add: calculateLayout_def assignPositions_eq)
qed

subsection \<open>The in-degree of a node that is not swept\<close>

lemma relax_degree:
  assumes "a \<notin> vis" and "fmlookup deg a = Some (Num n)" and "relax vis t (deg, nx) = (deg', nx')"
  shows "fmlookup deg' a = Some (Num (n - (if t = a then 1 else 0)))"
  using assms by (auto simp: relax_def Let_def split: if_splits)

lemma fold_relax_degree:
  "a \<notin> vis \<Longrightarrow> fmlookup deg a = Some (Num n) \<Longrightarrow> fold (relax vis) ts (deg, nx) = (deg', nx')
     \<Longrightarrow> fmlookup deg' a = Some (Num (n - int (count_list ts a)))"
proof (induction ts arbitrary: deg nx n)
  case Nil
  then show ?case by simp
next
  case (Cons t ts)
  obtain d1 n1 where step: "relax vis t (deg, nx) = (d1, n1)"
    by (cases "relax vis t (deg, nx)")
  with Cons.prems have rest: "fold (relax vis) ts (d1, n1) = (deg', nx')" by simp
  from relax_degree [OF Cons.prems(1,2) step]
  have "fmlookup d1 a = Some (Num (n - (if t = a then 1 else 0)))" .
  from Cons.IH [OF Cons.prems(1) this rest] show ?case by simp
qed

lemma count_list_concat_map:
  "int (count_list (concat (map f xs)) a) = (\<Sum>x\<leftarrow>xs. int (count_list (f x) a))"
  by (induction xs) simp_all

lemma relaxLayer_degree:
  assumes "a \<notin> vis" and "fmlookup deg a = Some (Num n)" and "relaxLayer oe vis cur deg = (deg', nx)"
    and "distinct cur"
  shows "fmlookup deg' a = Some (Num (n - (\<Sum>u\<in>set cur. int (count_list (targetsOf oe u) a))))"
proof -
  from fold_relax_degree [OF assms(1,2) assms(3) [unfolded relaxLayer_def]]
  have "fmlookup deg' a = Some (Num (n - int (count_list (concat (map (targetsOf oe) cur)) a)))" .
  then show ?thesis
    by (simp add: count_list_concat_map sum_list_distinct_conv_sum_set [OF assms(4)])
qed

subsection \<open>A node enters the next layer once, when its in-degree reaches zero\<close>

lemma relax_pushed:
  assumes "relax vis t (deg, nx) = (deg', nx')"
    and "distinct nx" and "\<forall>x\<in>set nx. \<exists>n\<le>0. fmlookup deg x = Some (Num n)"
  shows "distinct nx' \<and> (\<forall>x\<in>set nx'. \<exists>n\<le>0. fmlookup deg' x = Some (Num n))"
proof (cases "t \<in> vis")
  case True
  with assms show ?thesis by (simp add: relax_def)
next
  case False
  show ?thesis
  proof (cases "fmlookup deg t" rule: minusOne.cases)
    case 1
    with False assms(1) have "deg' = fmupd t NaN deg" "nx' = nx" by (simp_all add: relax_def)
    with assms(2,3) 1 show ?thesis by auto
  next
    case 2
    with False assms(1) have "deg' = fmupd t NaN deg" "nx' = nx" by (simp_all add: relax_def)
    with assms(2,3) 2 show ?thesis by auto
  next
    case (3 n)
    show ?thesis
    proof (cases "n = 1")
      case True
      with 3 False assms(1) have eqs: "deg' = fmupd t (Num 0) deg" "nx' = nx @ [t]"
        by (simp_all add: relax_def)
      from 3 True assms(3) have "t \<notin> set nx" by auto
      with assms(2,3) show ?thesis unfolding eqs by auto
    next
      case neq: False
      with 3 False assms(1) have eqs: "deg' = fmupd t (Num (n - 1)) deg" "nx' = nx"
        by (simp_all add: relax_def Let_def)
      from assms(2,3) 3 show ?thesis unfolding eqs by auto
    qed
  qed
qed

lemma fold_relax_pushed:
  "fold (relax vis) ts (deg, nx) = (deg', nx') \<Longrightarrow>
   distinct nx \<Longrightarrow> \<forall>x\<in>set nx. \<exists>n\<le>0. fmlookup deg x = Some (Num n) \<Longrightarrow>
   distinct nx' \<and> (\<forall>x\<in>set nx'. \<exists>n\<le>0. fmlookup deg' x = Some (Num n))"
proof (induction ts arbitrary: deg nx)
  case Nil
  then show ?case by simp
next
  case (Cons t ts)
  obtain d1 n1 where step: "relax vis t (deg, nx) = (d1, n1)"
    by (cases "relax vis t (deg, nx)")
  with Cons.prems have rest: "fold (relax vis) ts (d1, n1) = (deg', nx')" by simp
  from relax_pushed [OF step Cons.prems(2,3)]
  have "distinct n1" and "\<forall>x\<in>set n1. \<exists>n\<le>0. fmlookup d1 x = Some (Num n)" by blast+
  from Cons.IH [OF rest this] show ?case .
qed

lemma relaxLayer_pushed:
  assumes "relaxLayer oe vis cur deg = (deg', nx)"
  shows "distinct nx" and "\<forall>x\<in>set nx. \<exists>n\<le>0. fmlookup deg' x = Some (Num n)"
  using fold_relax_pushed [OF assms [unfolded relaxLayer_def]] by simp_all

lemma sweep_never_reaches:
  assumes D: "finite D" "\<And>u. u \<notin> D \<Longrightarrow> targetsOf oe u = []" "a \<in> D"
    and loop: "a \<in> set (targetsOf oe a)"
  shows "distinct cur \<Longrightarrow> set cur \<inter> visited st = {} \<Longrightarrow> a \<notin> set cur \<Longrightarrow> a \<notin> visited st \<Longrightarrow>
     fmlookup (degree st) a = Some (Num n) \<Longrightarrow>
     (\<Sum>u\<in>D - visited st. int (count_list (targetsOf oe u) a)) \<le> n \<Longrightarrow>
     a \<notin> visited (sweep oe cur st)"
proof (induction cur st arbitrary: n rule: sweep_induct [where oe = oe])
  case (Nil st)
  then show ?case by (simp add: sweep_Nil)
next
  case (step cur st deg' nx)
  let ?c = "\<lambda>u. int (count_list (targetsOf oe u) a)"
  let ?vis = "visited st \<union> set cur"
  let ?st = "\<lparr>layers = layers st @ [cur],
              nodeLayer = markLayer (length (layers st)) cur (nodeLayer st),
              visited = ?vis, degree = deg'\<rparr>"
  have a_vis: "a \<notin> ?vis" using step.prems by simp
  define n' where "n' = n - sum ?c (set cur)"
  have deg': "fmlookup deg' a = Some (Num n')"
    unfolding n'_def
    by (rule relaxLayer_degree [OF a_vis step.prems(5) step.hyps(2) step.prems(1)])
  have outside: "sum ?c (set cur - D) = 0"
    by (rule sum.neutral) (simp add: D(2))
  have "sum ?c (set cur) = sum ?c (set cur \<inter> D) + sum ?c (set cur - D)"
    by (rule sum.Int_Diff) simp
  with outside have cur_sum: "sum ?c (set cur) = sum ?c (set cur \<inter> D)" by simp
  have split: "D - visited st = (D - ?vis) \<union> (set cur \<inter> D)"
    using step.prems(2) by auto
  have "sum ?c (D - visited st) = sum ?c (D - ?vis) + sum ?c (set cur \<inter> D)"
    unfolding split by (rule sum.union_disjoint) (use D(1) in auto)
  with step.prems(6) cur_sum have bound: "sum ?c (D - ?vis) \<le> n'"
    unfolding n'_def by linarith
  have "a \<in> D - ?vis" using D(3) a_vis by simp
  then have "?c a \<le> sum ?c (D - ?vis)"
    by (intro member_le_sum) (use D(1) in auto)
  moreover have "count_list (targetsOf oe a) a \<noteq> 0"
    using loop by (simp add: count_list_0_iff)
  then have "1 \<le> ?c a" by simp
  ultimately have "1 \<le> n'" using bound by linarith
  with deg' relaxLayer_pushed(2) [OF step.hyps(2)] have a_nx: "a \<notin> set nx"
    by fastforce
  have disj: "set nx \<inter> ?vis = {}"
    using relaxLayer_next [OF step.hyps(2)] by auto
  have "a \<notin> visited (sweep oe nx ?st)"
    by (rule step.IH [where n = n'])
       (use relaxLayer_pushed(1) [OF step.hyps(2)] disj a_nx a_vis deg' bound in simp_all)
  then show ?case
    unfolding sweep_step [OF step.hyps(1,2)] .
qed

subsection \<open>The edges into a node, counted by their sources\<close>

lemma count_targets:
  "count_list (map to_node (filter (\<lambda>e. from_node e = u) es)) a
     = length (filter (\<lambda>e. from_node e = u \<and> to_node e = a) es)"
  by (induction es) auto

lemma sum_sources_le:
  assumes "finite D"
  shows "(\<Sum>u\<in>D. int (length (filter (\<lambda>e. from_node e = u \<and> to_node e = a) es)))
           \<le> int (length (filter (\<lambda>e. to_node e = a) es))"
proof (induction es)
  case Nil
  show ?case by simp
next
  case (Cons e es)
  have one: "(\<Sum>u\<in>D. (if from_node e = u \<and> to_node e = a then 1 else 0 :: int))
               \<le> (if to_node e = a then 1 else 0)"
  proof (cases "to_node e = a")
    case True
    have "(\<Sum>u\<in>D. (if from_node e = u then 1 else 0 :: int)) \<le> 1"
      using assms by (simp add: sum.delta')
    with True show ?thesis by simp
  next
    case False
    then show ?thesis by simp
  qed
  have "(\<Sum>u\<in>D. int (length (filter (\<lambda>e. from_node e = u \<and> to_node e = a) (e # es))))
      = (\<Sum>u\<in>D. (if from_node e = u \<and> to_node e = a then 1 else 0 :: int))
        + (\<Sum>u\<in>D. int (length (filter (\<lambda>e. from_node e = u \<and> to_node e = a) es)))"
    by (simp add: sum.distrib [symmetric]) (rule sum.cong, auto)
  also have "\<dots> \<le> (if to_node e = a then 1 else 0)
                  + int (length (filter (\<lambda>e. to_node e = a) es))"
    using one Cons.IH by linarith
  also have "\<dots> = int (length (filter (\<lambda>e. to_node e = a) (e # es)))"
    by simp
  finally show ?case .
qed

lemma self_loop_not_swept:
  assumes dist: "distinct (map id_node nodes)"
    and e: "e \<in> set edges" "from_node e = to_node e" "to_node e \<in> declared nodes"
  shows "to_node e \<notin> visited (topologicalSweep nodes edges)"
proof -
  define a where "a = to_node e"
  define adj where "adj = buildAdjacency nodes edges"
  define n where "n = int (length (filter (\<lambda>e. to_node e = a) edges))"
  have a_decl: "a \<in> declared nodes" using e(3) a_def by simp
  have targets: "targetsOf (outEdges adj) u =
      (if u \<in> declared nodes then map to_node (filter (\<lambda>e. from_node e = u) edges) else [])" for u
    by (simp add: adj_def targetsOf_buildAdjacency declared_def)
  have loop: "a \<in> set (targetsOf (outEdges adj) a)"
    using e a_def a_decl by (auto simp: targets)
  have deg: "fmlookup (inDegree adj) a = Some (Num n)"
    using a_decl by (simp add: adj_def inDegree_buildAdjacency declared_def n_def)
  have "e \<in> set (filter (\<lambda>e. to_node e = a) edges)" using e(1) a_def by simp
  then have "filter (\<lambda>e. to_node e = a) edges \<noteq> []" by (metis empty_iff empty_set)
  then have n_pos: "1 \<le> n" unfolding n_def by (cases "filter (\<lambda>e. to_node e = a) edges") auto
  have init_dist: "distinct (initialLayer nodes (inDegree adj))"
    unfolding initialLayer_def using dist by (rule distinct_map_filter)
  have a_init: "a \<notin> set (initialLayer nodes (inDegree adj))"
    using deg n_pos by (auto simp: initialLayer_def)
  have bound: "(\<Sum>u\<in>declared nodes - {}. int (count_list (targetsOf (outEdges adj) u) a)) \<le> n"
  proof -
    have "(\<Sum>u\<in>declared nodes. int (count_list (targetsOf (outEdges adj) u) a))
        = (\<Sum>u\<in>declared nodes. int (length (filter (\<lambda>e. from_node e = u \<and> to_node e = a) edges)))"
      by (rule sum.cong) (simp_all add: targets count_targets)
    also have "\<dots> \<le> n"
      unfolding n_def by (rule sum_sources_le) (simp add: declared_def)
    finally show ?thesis by simp
  qed
  have "a \<notin> visited (sweep (outEdges adj) (initialLayer nodes (inDegree adj))
            \<lparr>layers = [], nodeLayer = Map.empty, visited = {}, degree = inDegree adj\<rparr>)"
    by (rule sweep_never_reaches [where D = "declared nodes" and n = n])
       (use a_decl loop init_dist a_init deg bound in \<open>simp_all add: declared_def targets\<close>)
  then show ?thesis
    by (simp add: topologicalSweep_def adj_def a_def Let_def)
qed

subsection \<open>Only ids and end points matter\<close>

lemma buildAdjacency_cong:
  assumes "map id_node nodes1 = map id_node nodes2"
    and "map (\<lambda>e. (from_node e, to_node e)) edges1 = map (\<lambda>e. (from_node e, to_node e)) edges2"
  shows "buildAdjacency nodes1 edges1 = buildAdjacency nodes2 edges2"
proof -
  have ids: "id_node ` set nodes1 = id_node ` set nodes2"
    using assms(1) by (metis list.set_map)
  have sel: "map f (filter (\<lambda>e. g e = k) es)
      = map (\<lambda>p. f' p) (filter (\<lambda>p. g' p = k) (map (\<lambda>e. (from_node e, to_node e)) es))"
    if "\<And>e. f e = f' (from_node e, to_node e)" "\<And>e. g e = g' (from_node e, to_node e)"
    for f :: "GraphEdge \<Rightarrow> string" and g :: "GraphEdge \<Rightarrow> string" and f' g' k es
    by (induction es) (simp_all add: that)
  have out: "map to_node (filter (\<lambda>e. from_node e = k) edges1)
           = map to_node (filter (\<lambda>e. from_node e = k) edges2)" for k
    by (simp add: sel [where f' = snd and g' = fst] assms(2))
  have inn: "map from_node (filter (\<lambda>e. to_node e = k) edges1)
           = map from_node (filter (\<lambda>e. to_node e = k) edges2)" for k
    by (simp add: sel [where f' = fst and g' = snd] assms(2))
  have len: "length (filter (\<lambda>e. to_node e = k) edges1) = length (filter (\<lambda>e. to_node e = k) edges2)" for k
    using inn [of k] by (metis length_map)
  have nil: "filter (\<lambda>e. to_node e = k) edges1 = [] \<longleftrightarrow> filter (\<lambda>e. to_node e = k) edges2 = []" for k
    using len [of k] by (metis length_0_conv)
  have "inDegree (buildAdjacency nodes1 edges1) = inDegree (buildAdjacency nodes2 edges2)"
    by (rule fmap_ext) (simp add: inDegree_buildAdjacency ids len nil)
  moreover have "outEdges (buildAdjacency nodes1 edges1) = outEdges (buildAdjacency nodes2 edges2)"
    by (rule ext) (simp add: outEdges_buildAdjacency ids out)
  moreover have "inEdges (buildAdjacency nodes1 edges1) = inEdges (buildAdjacency nodes2 edges2)"
    by (rule ext) (simp add: inEdges_buildAdjacency ids inn)
  ultimately show ?thesis by (rule adjacency.equality) simp
qed

lemma initialLayer_ids:
  "initialLayer nodes deg = filter (\<lambda>i. fmlookup deg i = Some (Num 0)) (map id_node nodes)"
  by (simp add: initialLayer_def filter_map comp_def)


section \<open>Layout engine: properties\<close>

text \<open>
  C1. As stated (the key set of the returned map is exactly the set of declared node ids,
  also with edges that name undeclared nodes) the property fails: with the one declared
  node \<open>A\<close> and the edge \<open>A \<rightarrow> Y\<close>, the undeclared \<open>Y\<close> is given an in-degree
  entry, reaches zero when \<open>A\<close> is swept, becomes a layer of its own and receives the
  position \<open>(280, 0)\<close>.
\<close>

theorem calculateLayout_unknown_target_positioned:
  "positionsAt (calculateLayout exampleLimit [plainNode ''A''] [plainEdge ''A'' ''Y'']) [''A'', ''Y'']
       = Inr [Some (0, 0), Some (280, 0)]
   \<and> ''Y'' \<notin> declared [plainNode ''A'']"
  by code_simp

text \<open>
  C1, amended. For every graph, \<open>calculateLayout\<close> never throws the \<open>TypeError\<close> of a
  missing layer, and it returns a position map whenever the nodes and the edges together
  are fewer than the arguments the engine accepts in the call \<open>Math.max(...)\<close>. Whenever
  it returns, every declared node id is a key of the map and every other key is the
  \<open>to_node\<close> of an edge that leaves a declared node; so the key set is exactly the set
  of declared ids whenever every edge that leaves a declared node ends in a declared node.
\<close>

theorem calculateLayout_keys:
  "(int (length nodes + length edges) < argumentLimit \<longrightarrow>
      (\<exists>positions. calculateLayout argumentLimit nodes edges = Inr positions))
   \<and> calculateLayout argumentLimit nodes edges \<noteq> Inl TypeError
   \<and> (calculateLayout argumentLimit nodes edges = Inr positions \<longrightarrow>
        declared nodes \<subseteq> dom positions
        \<and> dom positions \<subseteq> declared nodes \<union> to_node ` {e \<in> set edges. from_node e \<in> declared nodes}
        \<and> ((\<forall>e \<in> set edges. from_node e \<in> declared nodes \<longrightarrow> to_node e \<in> declared nodes)
             \<longrightarrow> dom positions = declared nodes))"
proof -
  have keys: "declared nodes \<subseteq> dom positions
        \<and> dom positions \<subseteq> declared nodes \<union> to_node ` {e \<in> set edges. from_node e \<in> declared nodes}
        \<and> ((\<forall>e \<in> set edges. from_node e \<in> declared nodes \<longrightarrow> to_node e \<in> declared nodes)
             \<longrightarrow> dom positions = declared nodes)"
    if res: "calculateLayout argumentLimit nodes edges = Inr positions"
  proof (cases "nodes = []")
    case True
    with res have "positions = Map.empty" by (simp add: calculateLayout_def)
    with True show ?thesis by (simp add: declared_def)
  next
    case False
    obtain st where st: "assignLayers nodes edges = Inr st"
      using assignLayers_total by blast
    from res False st
    have "assignPositions argumentLimit (orderLayers (buildAdjacency nodes edges) (layers st)) = Inr positions"
      by (simp add: calculateLayout_def)
    then have dom: "dom positions = set (concat (layers st))"
      by (simp only: dom_assignPositions set_concat_orderLayers)
    from assignLayers_members [OF st]
    have lo: "declared nodes \<subseteq> dom positions"
      and hi: "dom positions \<subseteq> declared nodes \<union> to_node ` {e \<in> set edges. from_node e \<in> declared nodes}"
      unfolding dom by blast+
    from lo hi have "(\<forall>e \<in> set edges. from_node e \<in> declared nodes \<longrightarrow> to_node e \<in> declared nodes)
            \<longrightarrow> dom positions = declared nodes"
      by blast
    with lo hi show ?thesis by blast
  qed
  have returns: "\<exists>positions. calculateLayout argumentLimit nodes edges = Inr positions"
    if "int (length nodes + length edges) < argumentLimit"
    using that by (rule calculateLayout_returns)
  from keys returns calculateLayout_no_TypeError [of argumentLimit nodes edges]
  show ?thesis by blast
qed

text \<open>
  The amended property at a graph with an isolated node, a self-loop and a 2-node cycle,
  all of whose edges join declared nodes.
\<close>

theorem calculateLayout_keys_witness:
  "int (length [plainNode ''A'', plainNode ''B'', plainNode ''C'', plainNode ''D'']
     + length [plainEdge ''B'' ''B'', plainEdge ''C'' ''D'', plainEdge ''D'' ''C'']) < exampleLimit
   \<and> to_node ` set [plainEdge ''B'' ''B'', plainEdge ''C'' ''D'', plainEdge ''D'' ''C'']
     \<subseteq> declared [plainNode ''A'', plainNode ''B'', plainNode ''C'', plainNode ''D'']
   \<and> (\<exists>positions.
         calculateLayout exampleLimit [plainNode ''A'', plainNode ''B'', plainNode ''C'', plainNode ''D'']
           [plainEdge ''B'' ''B'', plainEdge ''C'' ''D'', plainEdge ''D'' ''C''] = Inr positions
         \<and> dom positions = {''A'', ''B'', ''C'', ''D''})"
proof -
  let ?N = "[plainNode ''A'', plainNode ''B'', plainNode ''C'', plainNode ''D'']"
  let ?E = "[plainEdge ''B'' ''B'', plainEdge ''C'' ''D'', plainEdge ''D'' ''C'']"
  have small: "int (length ?N + length ?E) < exampleLimit"
    by (simp add: exampleLimit_def)
  have d: "declared ?N = {''A'', ''B'', ''C'', ''D''}"
    by (simp add: declared_def plainNode_def)
  have h: "to_node ` set ?E \<subseteq> declared ?N"
    unfolding d by (simp add: plainEdge_def)
  then have h': "\<forall>e \<in> set ?E. from_node e \<in> declared ?N \<longrightarrow> to_node e \<in> declared ?N"
    by blast
  from calculateLayout_keys [of ?N ?E exampleLimit] small obtain positions
    where res: "calculateLayout exampleLimit ?N ?E = Inr positions"
    by blast
  from calculateLayout_keys [of ?N ?E exampleLimit positions] res h'
  have "dom positions = declared ?N" by blast
  with res have "calculateLayout exampleLimit ?N ?E = Inr positions \<and> dom positions = {''A'', ''B'', ''C'', ''D''}"
    unfolding d by blast
  with small h show ?thesis by blast
qed

text \<open>
  C2. Every node that the sweep never reaches is kept, but the remaining nodes do not
  share one layer: \<open>lastLayer\<close> is read from \<open>layers.length\<close> anew for each node, so
  the test \<open>!layers[lastLayer]\<close> always holds and each remaining node opens a layer of
  its own. On the 2-node cycle \<open>A \<rightleftharpoons> B\<close> the two nodes get the horizontal
  coordinates \<open>0\<close> and \<open>280\<close>, that is, the layers \<open>0\<close> and \<open>1\<close>.
\<close>

theorem two_cycle_gets_two_layers:
  "positionsAt (calculateLayout exampleLimit [plainNode ''A'', plainNode ''B'']
       [plainEdge ''A'' ''B'', plainEdge ''B'' ''A'']) [''A'', ''B'']
     = Inr [Some (0, 0), Some (280, 0)]
   \<and> map_sum id layers (assignLayers [plainNode ''A'', plainNode ''B'']
         [plainEdge ''A'' ''B'', plainEdge ''B'' ''A'']) = Inr [[''A''], [''B'']]
   \<and> map_sum id (\<lambda>st. map (nodeLayer st) [''A'', ''B'']) (assignLayers [plainNode ''A'', plainNode ''B'']
         [plainEdge ''A'' ''B'', plainEdge ''B'' ''A'']) = Inr [Some 0, Some 1]"
  by code_simp

text \<open>
  C3. As stated the property fails twice. A self-loop does block the in-degree resolution
  of its node: with the nodes \<open>A\<close>, \<open>B\<close> and the one edge \<open>A \<rightarrow> A\<close>, node \<open>A\<close> has
  in-degree one, is never swept and ends at \<open>x = 280\<close>, while without the edge it is at
  \<open>x = 0\<close>. And a self-loop is averaged in: for a node \<open>A\<close> with the edges
  \<open>P \<rightarrow> A\<close> and \<open>A \<rightarrow> A\<close>, with \<open>P\<close> at index \<open>1\<close> and \<open>A\<close> not yet placed, the
  forward barycenter of \<open>A\<close> is \<open>(1 + 0) / 2\<close>, not \<open>1\<close>.
\<close>

theorem self_loop_counterexample:
  "positionsAt (calculateLayout exampleLimit [plainNode ''A'', plainNode ''B''] [plainEdge ''A'' ''A'']) [''A'', ''B'']
       = Inr [Some (280, 0), Some (0, 0)]
   \<and> positionsAt (calculateLayout exampleLimit [plainNode ''A'', plainNode ''B''] []) [''A'', ''B'']
       = Inr [Some (0, 0), Some (0, 100)]
   \<and> forwardBarycenter
         (inEdges (buildAdjacency [plainNode ''P'', plainNode ''A''] [plainEdge ''P'' ''A'', plainEdge ''A'' ''A'']))
         [''P'' \<mapsto> 1] ''A'' = 1 / 2
   \<and> forwardBarycenter
         (inEdges (buildAdjacency [plainNode ''P'', plainNode ''A''] [plainEdge ''P'' ''A'']))
         [''P'' \<mapsto> 1] ''A'' = 1"
  by code_simp

text \<open>
  C3, amended. For every graph the layering ends and assigns the layers, with or without
  self-loops. For a graph with unique node ids and a self-loop on a declared node, the
  self-loop counts in the in-degree of its node and the sweep never consumes it, so the
  sweep never visits the node; the pass over the remaining nodes puts it into a layer
  after all swept layers; and the self-loop is part of the barycenter averaging of its
  node: the forward barycenter is the average over the sources of all edges into the node,
  the backward barycenter the average over the targets of all edges out of it, and the
  node itself is among both.
\<close>

theorem self_loop_node_is_left_to_the_remaining_pass:
  "(\<exists>st. assignLayers nodes edges = Inr st)
   \<and> (distinct (map id_node nodes) \<and> e \<in> set edges \<and> from_node e = to_node e
        \<and> to_node e \<in> declared nodes \<longrightarrow>
          to_node e \<notin> visited (topologicalSweep nodes edges)
          \<and> (\<exists>st i. assignLayers nodes edges = Inr st
                 \<and> length (layers (topologicalSweep nodes edges)) \<le> i \<and> i < length (layers st)
                 \<and> to_node e \<in> set (layers st ! i))
          \<and> forwardBarycenter (inEdges (buildAdjacency nodes edges)) ypos (to_node e)
              = average ypos (map from_node (filter (\<lambda>x. to_node x = to_node e) edges))
          \<and> to_node e \<in> set (map from_node (filter (\<lambda>x. to_node x = to_node e) edges))
          \<and> backwardBarycenter (outEdges (buildAdjacency nodes edges)) ypos (to_node e)
              = average ypos (map to_node (filter (\<lambda>x. from_node x = to_node e) edges))
          \<and> to_node e \<in> set (map to_node (filter (\<lambda>x. from_node x = to_node e) edges)))"
proof (rule conjI, rule assignLayers_total, rule impI)
  assume h: "distinct (map id_node nodes) \<and> e \<in> set edges \<and> from_node e = to_node e
        \<and> to_node e \<in> declared nodes"
  define a where "a = to_node e"
  define sw where "sw = topologicalSweep nodes edges"
  define rest where "rest = filter (\<lambda>n. n \<notin> visited sw) (map id_node nodes)"
  have unswept: "a \<notin> visited sw"
    unfolding a_def sw_def using h by (intro self_loop_not_swept) simp_all
  have a_decl: "a \<in> id_node ` set nodes"
    using h by (simp add: a_def declared_def)
  with unswept have "a \<in> set rest" by (simp add: rest_def)
  then obtain j where j: "j < length rest" "rest ! j = a"
    by (auto simp: in_set_conv_nth)
  define st where "st = sw\<lparr>layers := layers sw @ map (\<lambda>n. [n]) rest,
                 nodeLayer := fold (\<lambda>(i, n) m. m(n \<mapsto> i))
                    (enumerate (length (layers sw)) rest) (nodeLayer sw)\<rparr>"
  have st: "assignLayers nodes edges = Inr st"
    by (simp add: assignLayers_eq Let_def st_def rest_def sw_def)
  have "length (layers sw) \<le> length (layers sw) + j"
    and "length (layers sw) + j < length (layers st)"
    and "a \<in> set (layers st ! (length (layers sw) + j))"
    using j by (simp_all add: st_def nth_append)
  with st have placed: "\<exists>st i. assignLayers nodes edges = Inr st
            \<and> length (layers sw) \<le> i \<and> i < length (layers st) \<and> a \<in> set (layers st ! i)"
    by blast
  have "e \<in> set (filter (\<lambda>x. to_node x = a) edges)"
    using h a_def by simp
  then have in_parents: "a \<in> set (map from_node (filter (\<lambda>x. to_node x = a) edges))"
    using h a_def by force
  have "e \<in> set (filter (\<lambda>x. from_node x = a) edges)"
    using h a_def by simp
  then have in_children: "a \<in> set (map to_node (filter (\<lambda>x. from_node x = a) edges))"
    using h a_def by force
  have parents_ne: "map from_node (filter (\<lambda>x. to_node x = a) edges) \<noteq> []"
    using in_parents by (metis empty_iff empty_set)
  have children_ne: "map to_node (filter (\<lambda>x. from_node x = a) edges) \<noteq> []"
    using in_children by (metis empty_iff empty_set)
  have fwd: "forwardBarycenter (inEdges (buildAdjacency nodes edges)) ypos a
      = average ypos (map from_node (filter (\<lambda>x. to_node x = a) edges))"
    using a_decl parents_ne
    by (simp add: forwardBarycenter_def neighbours_def inEdges_buildAdjacency Let_def)
  have bwd: "backwardBarycenter (outEdges (buildAdjacency nodes edges)) ypos a
      = average ypos (map to_node (filter (\<lambda>x. from_node x = a) edges))"
    using a_decl children_ne
    by (simp add: backwardBarycenter_def neighbours_def outEdges_buildAdjacency Let_def)
  from unswept placed fwd in_parents bwd in_children
  show "to_node e \<notin> visited (topologicalSweep nodes edges)
          \<and> (\<exists>st i. assignLayers nodes edges = Inr st
                 \<and> length (layers (topologicalSweep nodes edges)) \<le> i \<and> i < length (layers st)
                 \<and> to_node e \<in> set (layers st ! i))
          \<and> forwardBarycenter (inEdges (buildAdjacency nodes edges)) ypos (to_node e)
              = average ypos (map from_node (filter (\<lambda>x. to_node x = to_node e) edges))
          \<and> to_node e \<in> set (map from_node (filter (\<lambda>x. to_node x = to_node e) edges))
          \<and> backwardBarycenter (outEdges (buildAdjacency nodes edges)) ypos (to_node e)
              = average ypos (map to_node (filter (\<lambda>x. from_node x = to_node e) edges))
          \<and> to_node e \<in> set (map to_node (filter (\<lambda>x. from_node x = to_node e) edges))"
    unfolding a_def sw_def by blast
qed

text \<open>
  The amended property at the nodes \<open>P\<close>, \<open>A\<close> with the edges \<open>P \<rightarrow> A\<close> and
  \<open>A \<rightarrow> A\<close>, with \<open>P\<close> at index \<open>1\<close>.
\<close>

theorem self_loop_node_is_left_to_the_remaining_pass_witness:
  "distinct (map id_node [plainNode ''P'', plainNode ''A''])
   \<and> plainEdge ''A'' ''A'' \<in> set [plainEdge ''P'' ''A'', plainEdge ''A'' ''A'']
   \<and> from_node (plainEdge ''A'' ''A'') = to_node (plainEdge ''A'' ''A'')
   \<and> to_node (plainEdge ''A'' ''A'') \<in> declared [plainNode ''P'', plainNode ''A'']
   \<and> ''A'' \<notin> visited (topologicalSweep [plainNode ''P'', plainNode ''A''] [plainEdge ''P'' ''A'', plainEdge ''A'' ''A''])
   \<and> forwardBarycenter
         (inEdges (buildAdjacency [plainNode ''P'', plainNode ''A''] [plainEdge ''P'' ''A'', plainEdge ''A'' ''A'']))
         [''P'' \<mapsto> 1] ''A'' = average [''P'' \<mapsto> 1] [''P'', ''A'']
   \<and> average [''P'' \<mapsto> 1] [''P'', ''A''] = 1 / 2"
proof -
  let ?N = "[plainNode ''P'', plainNode ''A'']"
  let ?E = "[plainEdge ''P'' ''A'', plainEdge ''A'' ''A'']"
  have h: "distinct (map id_node ?N)
      \<and> plainEdge ''A'' ''A'' \<in> set ?E
      \<and> from_node (plainEdge ''A'' ''A'') = to_node (plainEdge ''A'' ''A'')
      \<and> to_node (plainEdge ''A'' ''A'') \<in> declared ?N"
    by (simp add: plainNode_def plainEdge_def declared_def)
  have t: "to_node (plainEdge ''A'' ''A'') = ''A''" by (simp add: plainEdge_def)
  have ps: "map from_node (filter (\<lambda>x. to_node x = ''A'') ?E) = [''P'', ''A'']"
    by (simp add: plainEdge_def)
  have avg: "average [''P'' \<mapsto> 1] [''P'', ''A''] = 1 / 2"
    by (simp add: average_def posOrZero_def)
  from self_loop_node_is_left_to_the_remaining_pass [of ?N ?E "plainEdge ''A'' ''A''" "[''P'' \<mapsto> 1]"] h
  have "''A'' \<notin> visited (topologicalSweep ?N ?E)
      \<and> forwardBarycenter (inEdges (buildAdjacency ?N ?E)) [''P'' \<mapsto> 1] ''A''
          = average [''P'' \<mapsto> 1] [''P'', ''A'']"
    unfolding t ps by blast
  with h avg show ?thesis by blast
qed

text \<open>
  C4. Two invocations on the same node sequence and the same edge sequence return the same
  position map: \<open>calculateLayout\<close> reads nothing but its two arguments and the two
  spacing constants. More is true: only the ids of the nodes and the end points of the
  edges are read, so two graphs that agree on these already get equal maps (the same keys
  and the same \<open>(x, y)\<close> at every key), or the same exception, in any one engine.
\<close>

theorem calculateLayout_deterministic:
  assumes "map id_node nodes1 = map id_node nodes2"
    and "map (\<lambda>e. (from_node e, to_node e)) edges1 = map (\<lambda>e. (from_node e, to_node e)) edges2"
  shows "calculateLayout argumentLimit nodes1 edges1 = calculateLayout argumentLimit nodes2 edges2"
proof -
  have adj: "buildAdjacency nodes1 edges1 = buildAdjacency nodes2 edges2"
    using assms by (rule buildAdjacency_cong)
  have len: "length nodes1 = length nodes2"
    using assms(1) by (metis length_map)
  have "topologicalSweep nodes1 edges1 = topologicalSweep nodes2 edges2"
    by (simp add: topologicalSweep_def adj initialLayer_ids assms(1))
  then have layers: "assignLayers nodes1 edges1 = assignLayers nodes2 edges2"
    by (simp add: assignLayers_def assms(1))
  show ?thesis
    unfolding calculateLayout_def adj len layers by (rule refl)
qed

theorem calculateLayout_deterministic_witness:
  "map id_node [plainNode ''A'', (plainNode ''B'')\<lparr>name := ''matmul'', tags := [''hot'']\<rparr>]
     = map id_node [plainNode ''A'', plainNode ''B'']
   \<and> map (\<lambda>e. (from_node e, to_node e)) [(plainEdge ''A'' ''B'')\<lparr>from_output := ''U''\<rparr>]
     = map (\<lambda>e. (from_node e, to_node e)) [plainEdge ''A'' ''B'']
   \<and> calculateLayout exampleLimit [plainNode ''A'', (plainNode ''B'')\<lparr>name := ''matmul'', tags := [''hot'']\<rparr>]
        [(plainEdge ''A'' ''B'')\<lparr>from_output := ''U''\<rparr>]
     = calculateLayout exampleLimit [plainNode ''A'', plainNode ''B''] [plainEdge ''A'' ''B'']
   \<and> positionsAt (calculateLayout exampleLimit [plainNode ''A'', plainNode ''B''] [plainEdge ''A'' ''B'']) [''A'', ''B'']
     = Inr [Some (0, 0), Some (280, 0)]"
proof -
  have h1: "map id_node [plainNode ''A'', (plainNode ''B'')\<lparr>name := ''matmul'', tags := [''hot'']\<rparr>]
     = map id_node [plainNode ''A'', plainNode ''B'']"
    by (simp add: plainNode_def)
  have h2: "map (\<lambda>e. (from_node e, to_node e)) [(plainEdge ''A'' ''B'')\<lparr>from_output := ''U''\<rparr>]
     = map (\<lambda>e. (from_node e, to_node e)) [plainEdge ''A'' ''B'']"
    by (simp add: plainEdge_def)
  have v: "positionsAt (calculateLayout exampleLimit [plainNode ''A'', plainNode ''B''] [plainEdge ''A'' ''B'']) [''A'', ''B'']
     = Inr [Some (0, 0), Some (280, 0)]"
    by code_simp
  from calculateLayout_deterministic [OF h1 h2, of exampleLimit] h1 h2 v show ?thesis by blast
qed

section \<open>Synchronization store: \<open>useStore\<close> (\<open>src/unnamed/part_001\<close>)\<close>

text \<open>
  Fields whose names are taken (by an earlier record or by HOL) carry the name of their
  interface as a suffix.
\<close>

text \<open>
  A JavaScript number: a double. \<open>Finite q\<close> is the double whose value is the rational
  \<open>q\<close> (with \<open>Finite 0\<close> for \<open>+0\<close>), \<open>MinusZero\<close> is \<open>-0\<close>.
\<close>

datatype number = Finite rat | MinusZero | PlusInfinity | MinusInfinity | NotANumber

datatype param_value = NumberValue number | StringValue string

datatype TensorKind = vector | matrix | image_kind | sparse_matrix | pointcloud

record TensorSummary =
  id_tensor :: string
  name_tensor :: string
  kind :: TensorKind
  tags_tensor :: "string list"
  shape :: "nat list"
  dtype :: string
  stats :: "(string \<times> string) list"
  recommended_views :: "string list"

datatype ParameterType = continuous | discrete

record Parameter =
  name_param :: string
  display_name :: string
  type_param :: ParameterType
  default_param :: param_value
  description_param :: string
  min_param :: "number option"
  max_param :: "number option"
  step_param :: "number option"
  options :: "param_value list option"

record Probe =
  key :: string
  display_name_probe :: string
  description_probe :: string

record Graph =
  nodes_graph :: "GraphNode list"
  edges_graph :: "GraphEdge list"

record ScenarioInfo =
  id_info :: string
  name_info :: string
  description_info :: string

record ScenarioDetail =
  id_scenario :: string
  name_scenario :: string
  description_scenario :: string
  parameters_scenario :: "Parameter list"
  probes :: "Probe list"
  graph :: "Graph option"

record RunScenarioRequest =
  parameters_request :: "string \<rightharpoonup> param_value"

record RunScenarioResponse =
  scenario_id :: string
  parameters_response :: "string \<rightharpoonup> string"
  tensors_response :: "string \<rightharpoonup> TensorSummary"

datatype ToastType = error_toast | warning_toast | success_toast | info_toast

record Toast =
  id_toast :: string
  type_toast :: ToastType
  message :: string
  duration :: "nat option"

record TensorscapeState =
  scenarios :: "ScenarioInfo list"
  currentScenario :: "ScenarioDetail option"
  isLoadingScenarios :: bool
  isLoadingScenario :: bool
  isRunningScenario :: bool
  scenarioError :: "string option"
  tensors :: "string \<rightharpoonup> TensorSummary"
  selectedTensorId :: "string option"
  parameters :: "string \<rightharpoonup> param_value"
  isUpdatingParams :: bool
  toasts :: "Toast list"
  sidebarCollapsed :: bool

definition initialState :: TensorscapeState where
  "initialState =
     \<lparr>scenarios = [], currentScenario = None, isLoadingScenarios = False,
      isLoadingScenario = False, isRunningScenario = False, scenarioError = None,
      tensors = Map.empty, selectedTensorId = None, parameters = Map.empty,
      isUpdatingParams = False, toasts = [], sidebarCollapsed = False\<rparr>"

text \<open>What a \<open>catch\<close> block receives: an \<open>Error\<close> with its message, or anything else.\<close>

datatype thrown = Error string | NotAnError

definition messageOr :: "thrown \<Rightarrow> string \<Rightarrow> string" where
  "messageOr err fallback = (case err of Error m \<Rightarrow> m | NotAnError \<Rightarrow> fallback)"

subsection \<open>Synchronous actions\<close>

definition clearScenario :: "TensorscapeState \<Rightarrow> TensorscapeState" where
  "clearScenario s =
     s\<lparr>currentScenario := None, parameters := Map.empty, tensors := Map.empty,
       selectedTensorId := None\<rparr>"

definition updateParameter :: "string \<Rightarrow> param_value \<Rightarrow> TensorscapeState \<Rightarrow> TensorscapeState" where
  "updateParameter nm v s = s\<lparr>parameters := (parameters s)(nm \<mapsto> v)\<rparr>"

definition selectTensor :: "string option \<Rightarrow> TensorscapeState \<Rightarrow> TensorscapeState" where
  "selectTensor i s = s\<lparr>selectedTensorId := i\<rparr>"

definition updateTensor :: "string \<Rightarrow> TensorSummary \<Rightarrow> TensorscapeState \<Rightarrow> TensorscapeState" where
  "updateTensor i summary s = s\<lparr>tensors := (tensors s)(i \<mapsto> summary)\<rparr>"

definition setTensors :: "(string \<rightharpoonup> TensorSummary) \<Rightarrow> TensorscapeState \<Rightarrow> TensorscapeState" where
  "setTensors ts s = s\<lparr>tensors := ts\<rparr>"

definition setUpdatingParams :: "bool \<Rightarrow> TensorscapeState \<Rightarrow> TensorscapeState" where
  "setUpdatingParams updating s = s\<lparr>isUpdatingParams := updating\<rparr>"

text \<open>
  \<open>addToast\<close> draws the id from the clock and \<open>Math.random\<close>; here the caller passes
  it. The timer that later calls \<open>removeToast\<close> belongs to the environment.
\<close>

definition addToast :: "string \<Rightarrow> ToastType \<Rightarrow> string \<Rightarrow> nat option \<Rightarrow> TensorscapeState \<Rightarrow> TensorscapeState" where
  "addToast newId ty msg dur s =
     s\<lparr>toasts := toasts s @ [\<lparr>id_toast = newId, type_toast = ty, message = msg, duration = dur\<rparr>]\<rparr>"

definition removeToast :: "string \<Rightarrow> TensorscapeState \<Rightarrow> TensorscapeState" where
  "removeToast i s = s\<lparr>toasts := filter (\<lambda>t. id_toast t \<noteq> i) (toasts s)\<rparr>"

subsection \<open>Asynchronous actions, cut at their \<open>await\<close>\<close>

text \<open>
  An \<open>async\<close> action runs up to its \<open>await\<close>, and its continuation runs when the
  promise settles; other actions may run in between. Each action is therefore given by the
  transition up to the \<open>await\<close> (\<open>_start\<close>), which also yields the request that was
  sent, and by the transitions of the two continuations (\<open>_resolved\<close>, \<open>_rejected\<close>).
\<close>

definition loadScenarios_start :: "TensorscapeState \<Rightarrow> TensorscapeState" where
  "loadScenarios_start s = s\<lparr>isLoadingScenarios := True, scenarioError := None\<rparr>"

definition loadScenarios_resolved :: "ScenarioInfo list \<Rightarrow> TensorscapeState \<Rightarrow> TensorscapeState" where
  "loadScenarios_resolved fetched s = s\<lparr>scenarios := fetched, isLoadingScenarios := False\<rparr>"

definition loadScenarios_rejected :: "thrown \<Rightarrow> TensorscapeState \<Rightarrow> TensorscapeState" where
  "loadScenarios_rejected err s =
     s\<lparr>scenarioError := Some (messageOr err ''Failed to load scenarios''),
       isLoadingScenarios := False\<rparr>"

text \<open>
  \<open>runCurrentScenario\<close> up to \<open>await runScenario(currentScenario.id, { parameters })\<close>:
  the request carries the id of the scenario that is current now.
\<close>

definition runCurrentScenario_start :: "TensorscapeState \<Rightarrow> (string \<times> RunScenarioRequest) option \<times> TensorscapeState" where
  "runCurrentScenario_start s =
     (case currentScenario s of
        None \<Rightarrow> (None, s)
      | Some sc \<Rightarrow>
          (Some (id_scenario sc, \<lparr>parameters_request = parameters s\<rparr>),
           s\<lparr>isRunningScenario := True\<rparr>))"

text \<open>The continuation after the \<open>await\<close>: \<open>set({ tensors: response.tensors, isRunningScenario: false })\<close>.\<close>

definition runCurrentScenario_resolved :: "RunScenarioResponse \<Rightarrow> TensorscapeState \<Rightarrow> TensorscapeState" where
  "runCurrentScenario_resolved response s =
     s\<lparr>tensors := tensors_response response, isRunningScenario := False\<rparr>"

definition runCurrentScenario_rejected :: "thrown \<Rightarrow> string \<Rightarrow> TensorscapeState \<Rightarrow> TensorscapeState" where
  "runCurrentScenario_rejected err toastId s =
     addToast toastId error_toast (messageOr err ''Failed to run scenario'') None
       (s\<lparr>isRunningScenario := False\<rparr>)"

definition selectScenario_start :: "string \<Rightarrow> TensorscapeState \<Rightarrow> string \<times> TensorscapeState" where
  "selectScenario_start i s = (i, s\<lparr>isLoadingScenario := True, scenarioError := None\<rparr>)"

text \<open>
  \<open>defaultParams[param.name] = param.default\<close> on an object literal. For the name
  \<open>__proto__\<close> the assignment reaches the setter of \<open>Object.prototype\<close>, which ignores a
  number or a string: no entry is stored.
\<close>

definition defaultParams :: "Parameter list \<Rightarrow> (string \<rightharpoonup> param_value)" where
  "defaultParams ps =
     fold (\<lambda>param m. if name_param param = ''__proto__'' then m
                     else m(name_param param \<mapsto> default_param param)) ps Map.empty"

text \<open>
  The continuation after \<open>await fetchScenario(id)\<close>, up to the \<open>await\<close> inside
  \<open>runCurrentScenario\<close>, which it calls.
\<close>

definition selectScenario_resolved :: "ScenarioDetail \<Rightarrow> TensorscapeState \<Rightarrow> (string \<times> RunScenarioRequest) option \<times> TensorscapeState" where
  "selectScenario_resolved scenario s =
     runCurrentScenario_start
       (s\<lparr>currentScenario := Some scenario,
          parameters := defaultParams (parameters_scenario scenario),
          isLoadingScenario := False,
          tensors := Map.empty,
          selectedTensorId := None\<rparr>)"

definition selectScenario_rejected :: "thrown \<Rightarrow> string \<Rightarrow> TensorscapeState \<Rightarrow> TensorscapeState" where
  "selectScenario_rejected err toastId s =
     addToast toastId error_toast (messageOr err ''Failed to load scenario'') None
       (s\<lparr>scenarioError := Some (messageOr err ''Failed to load scenario''),
          isLoadingScenario := False\<rparr>)"

subsection \<open>Concrete values for the properties\<close>

definition plainSummary :: "string \<Rightarrow> TensorSummary" where
  "plainSummary i =
     \<lparr>id_tensor = i, name_tensor = i, kind = matrix, tags_tensor = [], shape = [2, 2],
      dtype = ''float64'', stats = [], recommended_views = []\<rparr>"

definition plainScenario :: "string \<Rightarrow> ScenarioDetail" where
  "plainScenario i =
     \<lparr>id_scenario = i, name_scenario = i, description_scenario = [],
      parameters_scenario = [], probes = [], graph = None\<rparr>"

text \<open>
  The race of C5: scenario \<open>A\<close> is current and its run is in flight; scenario \<open>B\<close> is
  selected and its detail arrives; then the run of \<open>A\<close> resolves.
\<close>

definition lateRunOfA :: TensorscapeState where
  "lateRunOfA =
     (let sA = snd (selectScenario_resolved (plainScenario ''A'') (snd (selectScenario_start ''A'' initialState)));
          sB = snd (selectScenario_resolved (plainScenario ''B'') (snd (selectScenario_start ''B'' sA)))
      in runCurrentScenario_resolved
           \<lparr>scenario_id = ''A'', parameters_response = Map.empty,
            tensors_response = [''A:out'' \<mapsto> plainSummary ''A:out'']\<rparr> sB)"

section \<open>Synchronization store: properties\<close>

text \<open>
  C5. As stated (the resolution of a run checks that its scenario is still current, so a
  late result is never written while another scenario is current) the property fails:
  the request of the run of \<open>A\<close> names \<open>A\<close>, and when its response arrives after
  \<open>B\<close> has become current, the tensors of \<open>A\<close> are in the store while \<open>B\<close> is
  current.
\<close>

theorem late_run_overwrites_tensors:
  "map_option fst (fst (selectScenario_resolved (plainScenario ''A'') initialState)) = Some ''A''
   \<and> map_option id_scenario (currentScenario lateRunOfA) = Some ''B''
   \<and> tensors lateRunOfA ''A:out'' = Some (plainSummary ''A:out'')"
  by (simp add: lateRunOfA_def selectScenario_resolved_def selectScenario_start_def
      runCurrentScenario_start_def runCurrentScenario_resolved_def initialState_def
      plainScenario_def Let_def)

text \<open>
  C5, amended. Selecting another scenario does not cancel a run in flight, and the
  continuation of \<open>runCurrentScenario\<close> applies the response without looking at its
  scenario id: whatever the state, it replaces the tensors by the tensors of the response,
  clears \<open>isRunningScenario\<close> and leaves the current scenario as it is.
\<close>

theorem run_resolution_is_unconditional:
  "tensors (runCurrentScenario_resolved response s) = tensors_response response
   \<and> isRunningScenario (runCurrentScenario_resolved response s) = False
   \<and> currentScenario (runCurrentScenario_resolved response s) = currentScenario s"
  by (simp add: runCurrentScenario_resolved_def)

text \<open>
  C8. As stated (after \<open>setTensors(map)\<close> and \<open>updateTensor(id, s)\<close> the tensors differ
  from \<open>map\<close> in exactly the key \<open>id\<close>) the second half fails when \<open>map\<close> already
  holds \<open>s\<close> at \<open>id\<close>: then no key differs.
\<close>

theorem update_with_present_summary_changes_nothing:
  "{k. tensors (updateTensor ''t'' (plainSummary ''t'')
                 (setTensors [''t'' \<mapsto> plainSummary ''t''] initialState)) k
        \<noteq> [''t'' \<mapsto> plainSummary ''t''] k} = {}"
  by (simp add: updateTensor_def setTensors_def)

text \<open>
  C8, amended. \<open>updateTensor(id, s)\<close> followed by \<open>setTensors(map)\<close>, where \<open>id\<close> is
  not a key of \<open>map\<close>, leaves \<open>tensors[id]\<close> absent; \<open>setTensors(map)\<close> followed by
  \<open>updateTensor(id, s)\<close> yields \<open>map\<close> with \<open>s\<close> at \<open>id\<close>: every other entry is
  unchanged, and \<open>id\<close> is the one key that differs unless \<open>map\<close> held \<open>s\<close> there
  already.
\<close>

theorem store_merge_law:
  "(i \<notin> dom m \<longrightarrow> tensors (setTensors m (updateTensor i x s)) i = None)
   \<and> tensors (setTensors m (updateTensor i x s)) = m
   \<and> tensors (updateTensor i x (setTensors m s)) = m(i \<mapsto> x)
   \<and> {k. tensors (updateTensor i x (setTensors m s)) k \<noteq> m k}
       = (if m i = Some x then {} else {i})"
  by (auto simp: updateTensor_def setTensors_def)

theorem store_merge_law_witness:
  "''t'' \<notin> dom [''u'' \<mapsto> plainSummary ''u'']
   \<and> tensors (setTensors [''u'' \<mapsto> plainSummary ''u''] (updateTensor ''t'' (plainSummary ''t'') initialState)) ''t'' = None
   \<and> {k. tensors (updateTensor ''t'' (plainSummary ''t'') (setTensors [''u'' \<mapsto> plainSummary ''u''] initialState)) k
          \<noteq> [''u'' \<mapsto> plainSummary ''u''] k} = {''t''}"
  using store_merge_law [of "''t''" "[''u'' \<mapsto> plainSummary ''u'']" "plainSummary ''t''" initialState]
  by simp

section \<open>Connection manager: \<open>useWebSocket\<close> (\<open>src/web/src/api/websocket.ts\<close>)\<close>

datatype ReadyState = CONNECTING | OPEN | CLOSING | CLOSED

record UseWebSocketOptions =
  reconnectInterval :: "nat option"
  maxReconnectAttempts :: "nat option"

text \<open>The defaults of the destructuring: \<open>reconnectInterval = 3000, maxReconnectAttempts = 10\<close>.\<close>

definition reconnectIntervalOf :: "UseWebSocketOptions \<Rightarrow> nat" where
  "reconnectIntervalOf opts = (case reconnectInterval opts of None \<Rightarrow> 3000 | Some ms \<Rightarrow> ms)"

definition maxReconnectAttemptsOf :: "UseWebSocketOptions \<Rightarrow> nat" where
  "maxReconnectAttemptsOf opts = (case maxReconnectAttempts opts of None \<Rightarrow> 10 | Some n \<Rightarrow> n)"

text \<open>
  One mounted hook with the part of the browser it talks to: the \<open>WebSocket\<close> objects it
  has created (by index, with their \<open>readyState\<close>) and the timeouts that are scheduled
  and have neither fired nor been cleared (handle and delay; each runs \<open>connect\<close>).
  Timer handles are positive integers, so a handle is truthy.
\<close>

record hook =
  sockets :: "ReadyState list"
  wsRef :: "nat option"
  reconnectAttemptsRef :: nat
  reconnectTimeoutRef :: "nat option"
  isConnected :: bool
  timeouts :: "(nat \<times> nat) list"
  lastHandle :: nat

definition unmounted :: hook where
  "unmounted = \<lparr>sockets = [], wsRef = None, reconnectAttemptsRef = 0,
     reconnectTimeoutRef = None, isConnected = False, timeouts = [], lastHandle = 0\<rparr>"

text \<open>\<open>wsRef.current?.readyState\<close>\<close>

definition readyStateOf :: "hook \<Rightarrow> ReadyState option" where
  "readyStateOf h =
     (case wsRef h of
        None \<Rightarrow> None
      | Some i \<Rightarrow> if i < length (sockets h) then Some (sockets h ! i) else None)"

definition connect :: "hook \<Rightarrow> hook" where
  "connect h =
     (if readyStateOf h = Some OPEN \<or> readyStateOf h = Some CONNECTING then h
      else h\<lparr>sockets := sockets h @ [CONNECTING], wsRef := Some (length (sockets h))\<rparr>)"

text \<open>The browser opens socket \<open>i\<close> and calls its \<open>onopen\<close>.\<close>

definition onopen :: "nat \<Rightarrow> hook \<Rightarrow> hook" where
  "onopen i h = h\<lparr>sockets := (sockets h)[i := OPEN], isConnected := True, reconnectAttemptsRef := 0\<rparr>"

definition setTimeout :: "nat \<Rightarrow> hook \<Rightarrow> nat \<times> hook" where
  "setTimeout delay h =
     (Suc (lastHandle h),
      h\<lparr>timeouts := timeouts h @ [(Suc (lastHandle h), delay)], lastHandle := Suc (lastHandle h)\<rparr>)"

definition clearTimeout :: "nat \<Rightarrow> hook \<Rightarrow> hook" where
  "clearTimeout t h = h\<lparr>timeouts := filter (\<lambda>(t', d). t' \<noteq> t) (timeouts h)\<rparr>"

text \<open>The browser closes socket \<open>i\<close> and calls its \<open>onclose\<close>.\<close>

definition onclose :: "UseWebSocketOptions \<Rightarrow> nat \<Rightarrow> hook \<Rightarrow> hook" where
  "onclose opts i h =
     (let h1 = h\<lparr>sockets := (sockets h)[i := CLOSED], isConnected := False\<rparr> in
      if reconnectAttemptsRef h1 < maxReconnectAttemptsOf opts then
        (case setTimeout (reconnectIntervalOf opts) (h1\<lparr>reconnectAttemptsRef := Suc (reconnectAttemptsRef h1)\<rparr>) of
           (t, h2) \<Rightarrow> h2\<lparr>reconnectTimeoutRef := Some t\<rparr>)
      else h1)"

text \<open>A scheduled timeout fires: it leaves the table and runs \<open>connect\<close>.\<close>

definition timeoutFires :: "nat \<Rightarrow> hook \<Rightarrow> hook" where
  "timeoutFires t h =
     (if t \<in> fst ` set (timeouts h) then connect (clearTimeout t h) else h)"

text \<open>\<open>ws.close()\<close>: an open or connecting socket starts closing; its close event comes later.\<close>

definition closeSocket :: "hook \<Rightarrow> hook" where
  "closeSocket h =
     (case wsRef h of
        None \<Rightarrow> h
      | Some i \<Rightarrow>
          if readyStateOf h = Some OPEN \<or> readyStateOf h = Some CONNECTING
          then h\<lparr>sockets := (sockets h)[i := CLOSING]\<rparr>
          else h)"

text \<open>The effect \<open>useEffect(() => { connect(); return cleanup }, [connect])\<close>.\<close>

definition mount :: "hook \<Rightarrow> hook" where
  "mount h = connect h"

definition cleanup :: "hook \<Rightarrow> hook" where
  "cleanup h =
     closeSocket
       (case reconnectTimeoutRef h of
          None \<Rightarrow> h
        | Some t \<Rightarrow> if t \<noteq> 0 then clearTimeout t h else h)"

subsection \<open>Runs of events\<close>

text \<open>A hook whose first socket has opened.\<close>

definition connected :: hook where
  "connected = onopen 0 (mount unmounted)"

text \<open>The socket the hook holds is closed by the other side.\<close>

definition dropCurrent :: "UseWebSocketOptions \<Rightarrow> hook \<Rightarrow> hook" where
  "dropCurrent opts h = (case wsRef h of None \<Rightarrow> h | Some i \<Rightarrow> onclose opts i h)"

text \<open>The scheduled reconnection, if there is one, fires.\<close>

definition retry :: "hook \<Rightarrow> hook" where
  "retry h = (case timeouts h of [] \<Rightarrow> h | (t, d) # rest \<Rightarrow> timeoutFires t h)"

text \<open>
  \<open>n\<close> consecutive disconnects with no successful connection in between: every socket
  that a reconnection opens is closed before it opens. The result is the state right
  after the \<open>n\<close>-th close event.
\<close>

fun disconnects :: "UseWebSocketOptions \<Rightarrow> nat \<Rightarrow> hook \<Rightarrow> hook" where
  "disconnects opts 0 h = h"
| "disconnects opts (Suc n) h = dropCurrent opts (retry (disconnects opts n h))"

definition defaults :: UseWebSocketOptions where
  "defaults = \<lparr>reconnectInterval = None, maxReconnectAttempts = None\<rparr>"


section \<open>Connection manager: properties\<close>

text \<open>
  A hook that waits for its \<open>k\<close>-th reconnection: the socket it holds is closed, the
  counter stands at \<open>k\<close>, and the one scheduled timeout is the newest handle \<open>n\<close>.
\<close>

definition awaitingRetry :: "UseWebSocketOptions \<Rightarrow> nat \<Rightarrow> nat \<Rightarrow> hook \<Rightarrow> bool" where
  "awaitingRetry opts k n s \<longleftrightarrow>
     timeouts s = [(n, reconnectIntervalOf opts)] \<and> lastHandle s = n
     \<and> reconnectAttemptsRef s = k \<and> \<not> isConnected s \<and> readyStateOf s = Some CLOSED"

lemma readyStateOf_timeouts: "readyStateOf (s\<lparr>timeouts := ts\<rparr>) = readyStateOf s"
  by (simp add: readyStateOf_def split: option.split)

lemma retry_awaiting:
  assumes "awaitingRetry opts k n s"
  shows "retry s = s\<lparr>sockets := sockets s @ [CONNECTING], wsRef := Some (length (sockets s)),
                      timeouts := []\<rparr>"
  using assms
  by (simp add: awaitingRetry_def retry_def timeoutFires_def clearTimeout_def connect_def
      readyStateOf_timeouts)

lemma snoc_update: "(xs @ [y])[length xs := x] = xs @ [x]"
  by (rule list_update_length)

lemma drop_after_retry:
  assumes "awaitingRetry opts k n s"
  shows "k < maxReconnectAttemptsOf opts \<Longrightarrow>
           awaitingRetry opts (Suc k) (Suc n) (dropCurrent opts (retry s))"
    and "\<not> k < maxReconnectAttemptsOf opts \<Longrightarrow>
           timeouts (dropCurrent opts (retry s)) = []
           \<and> reconnectAttemptsRef (dropCurrent opts (retry s)) = k
           \<and> \<not> isConnected (dropCurrent opts (retry s))
           \<and> readyStateOf (dropCurrent opts (retry s)) = Some CLOSED"
  using assms unfolding retry_awaiting [OF assms]
  by (simp_all add: awaitingRetry_def dropCurrent_def onclose_def setTimeout_def readyStateOf_def
      snoc_update Let_def)

lemma first_disconnect:
  assumes "wsRef h = Some i" and "i < length (sockets h)" and "timeouts h = []"
  shows "0 < maxReconnectAttemptsOf opts \<Longrightarrow>
           awaitingRetry opts (Suc 0) (Suc (lastHandle h)) (disconnects opts (Suc 0) (onopen i h))"
    and "\<not> 0 < maxReconnectAttemptsOf opts \<Longrightarrow>
           timeouts (disconnects opts (Suc 0) (onopen i h)) = []
           \<and> reconnectAttemptsRef (disconnects opts (Suc 0) (onopen i h)) = 0
           \<and> \<not> isConnected (disconnects opts (Suc 0) (onopen i h))
           \<and> readyStateOf (disconnects opts (Suc 0) (onopen i h)) = Some CLOSED"
  using assms
  by (simp_all add: awaitingRetry_def onopen_def retry_def dropCurrent_def onclose_def
      setTimeout_def readyStateOf_def Let_def)

lemma disconnects_below_cap:
  assumes "wsRef h = Some i" and "i < length (sockets h)" and "timeouts h = []"
  shows "0 < k \<Longrightarrow> k \<le> maxReconnectAttemptsOf opts \<Longrightarrow>
     awaitingRetry opts k (lastHandle h + k) (disconnects opts k (onopen i h))"
proof (induction k)
  case 0
  then show ?case by simp
next
  case (Suc k)
  show ?case
  proof (cases "k = 0")
    case True
    with Suc.prems first_disconnect(1) [OF assms, of opts] show ?thesis by simp
  next
    case False
    with Suc have "awaitingRetry opts k (lastHandle h + k) (disconnects opts k (onopen i h))"
      by simp
    from drop_after_retry(1) [OF this] Suc.prems show ?thesis by simp
  qed
qed

lemma disconnects_beyond_cap:
  assumes "wsRef h = Some i" and "i < length (sockets h)" and "timeouts h = []"
  shows "timeouts (disconnects opts (Suc (maxReconnectAttemptsOf opts)) (onopen i h)) = []
     \<and> reconnectAttemptsRef (disconnects opts (Suc (maxReconnectAttemptsOf opts)) (onopen i h))
         = maxReconnectAttemptsOf opts
     \<and> \<not> isConnected (disconnects opts (Suc (maxReconnectAttemptsOf opts)) (onopen i h))
     \<and> readyStateOf (disconnects opts (Suc (maxReconnectAttemptsOf opts)) (onopen i h)) = Some CLOSED"
proof (cases "maxReconnectAttemptsOf opts = 0")
  case True
  with first_disconnect(2) [OF assms, of opts] show ?thesis by simp
next
  case False
  then have "awaitingRetry opts (maxReconnectAttemptsOf opts) (lastHandle h + maxReconnectAttemptsOf opts)
      (disconnects opts (maxReconnectAttemptsOf opts) (onopen i h))"
    by (intro disconnects_below_cap [OF assms]) simp_all
  from drop_after_retry(2) [OF this] show ?thesis by simp
qed

text \<open>
  C6. As stated (after \<open>N\<close> consecutive disconnects of a connected channel, with \<open>N\<close>
  the cap, no reconnection timer is scheduled) the property fails: at the \<open>N\<close>-th close
  the counter stands at \<open>N - 1\<close>, which is below the cap, so the handler counts the
  \<open>N\<close>-th attempt and schedules its timer. With the default cap of ten:
\<close>

theorem tenth_disconnect_schedules_a_timer:
  "maxReconnectAttemptsOf defaults = 10
   \<and> timeouts (disconnects defaults 10 connected) = [(10, 3000)]
   \<and> reconnectAttemptsRef (disconnects defaults 10 connected) = 10"
  by code_simp

text \<open>
  C6, amended. Take any hook whose socket opens while no reconnection timer is pending,
  whatever its counter was before: \<open>onopen\<close> sets the counter to zero and
  \<open>isConnected\<close> to true. From there, each of the first \<open>N\<close> consecutive disconnects
  (\<open>N\<close> the cap, 10 by default) counts one attempt and schedules one reconnection timer
  with the configured interval; after the next disconnect, the \<open>N + 1\<close>-th, no timer is
  scheduled, the socket that the hook holds is closed, the counter stands at \<open>N\<close> and
  \<open>isConnected\<close> is false. The hook has no state named failed: it reports
  \<open>isConnected = false\<close> only.
\<close>

theorem reconnect_cap:
  "wsRef h = Some i \<and> i < length (sockets h) \<and> timeouts h = [] \<longrightarrow>
     reconnectAttemptsRef (onopen i h) = 0 \<and> isConnected (onopen i h)
     \<and> (0 < k \<and> k \<le> maxReconnectAttemptsOf opts \<longrightarrow>
          timeouts (disconnects opts k (onopen i h)) = [(lastHandle h + k, reconnectIntervalOf opts)]
          \<and> reconnectAttemptsRef (disconnects opts k (onopen i h)) = k
          \<and> \<not> isConnected (disconnects opts k (onopen i h)))
     \<and> timeouts (disconnects opts (Suc (maxReconnectAttemptsOf opts)) (onopen i h)) = []
     \<and> readyStateOf (disconnects opts (Suc (maxReconnectAttemptsOf opts)) (onopen i h)) = Some CLOSED
     \<and> reconnectAttemptsRef (disconnects opts (Suc (maxReconnectAttemptsOf opts)) (onopen i h))
         = maxReconnectAttemptsOf opts
     \<and> \<not> isConnected (disconnects opts (Suc (maxReconnectAttemptsOf opts)) (onopen i h))"
proof (rule impI)
  assume "wsRef h = Some i \<and> i < length (sockets h) \<and> timeouts h = []"
  then have h: "wsRef h = Some i" "i < length (sockets h)" "timeouts h = []"
    by simp_all
  have opened: "reconnectAttemptsRef (onopen i h) = 0 \<and> isConnected (onopen i h)"
    by (simp add: onopen_def)
  have below: "timeouts (disconnects opts k (onopen i h)) = [(lastHandle h + k, reconnectIntervalOf opts)]
      \<and> reconnectAttemptsRef (disconnects opts k (onopen i h)) = k
      \<and> \<not> isConnected (disconnects opts k (onopen i h))"
    if "0 < k" "k \<le> maxReconnectAttemptsOf opts"
    using disconnects_below_cap [OF h that] by (simp add: awaitingRetry_def)
  from opened below disconnects_beyond_cap [OF h, of opts]
  show "reconnectAttemptsRef (onopen i h) = 0 \<and> isConnected (onopen i h)
     \<and> (0 < k \<and> k \<le> maxReconnectAttemptsOf opts \<longrightarrow>
          timeouts (disconnects opts k (onopen i h)) = [(lastHandle h + k, reconnectIntervalOf opts)]
          \<and> reconnectAttemptsRef (disconnects opts k (onopen i h)) = k
          \<and> \<not> isConnected (disconnects opts k (onopen i h)))
     \<and> timeouts (disconnects opts (Suc (maxReconnectAttemptsOf opts)) (onopen i h)) = []
     \<and> readyStateOf (disconnects opts (Suc (maxReconnectAttemptsOf opts)) (onopen i h)) = Some CLOSED
     \<and> reconnectAttemptsRef (disconnects opts (Suc (maxReconnectAttemptsOf opts)) (onopen i h))
         = maxReconnectAttemptsOf opts
     \<and> \<not> isConnected (disconnects opts (Suc (maxReconnectAttemptsOf opts)) (onopen i h))"
    by blast
qed

text \<open>
  The amended property at a hook that has lost its connection, retried three times and
  now sees its fourth socket open: the counter, three before, is zero again, and ten more
  disconnects are retried.
\<close>

definition thirdRetry :: hook where
  "thirdRetry = retry (disconnects defaults 3 connected)"

theorem reconnect_cap_witness:
  "wsRef thirdRetry = Some 3 \<and> 3 < length (sockets thirdRetry) \<and> timeouts thirdRetry = []
   \<and> reconnectAttemptsRef thirdRetry = 3
   \<and> reconnectAttemptsRef (onopen 3 thirdRetry) = 0
   \<and> (0::nat) < 10 \<and> 10 \<le> maxReconnectAttemptsOf defaults
   \<and> timeouts (disconnects defaults 10 (onopen 3 thirdRetry)) = [(13, 3000)]
   \<and> timeouts (disconnects defaults 11 (onopen 3 thirdRetry)) = []
   \<and> reconnectAttemptsRef (disconnects defaults 11 (onopen 3 thirdRetry)) = 10"
proof -
  have h: "wsRef thirdRetry = Some 3 \<and> 3 < length (sockets thirdRetry) \<and> timeouts thirdRetry = []"
    by code_simp
  have before: "reconnectAttemptsRef thirdRetry = 3" "lastHandle thirdRetry = 3"
    by code_simp+
  have cap: "maxReconnectAttemptsOf defaults = 10"
    by (simp add: maxReconnectAttemptsOf_def defaults_def)
  have interval: "reconnectIntervalOf defaults = 3000"
    by (simp add: reconnectIntervalOf_def defaults_def)
  have eleven: "Suc (maxReconnectAttemptsOf defaults) = 11"
    by (simp add: cap)
  from reconnect_cap [of thirdRetry 3 10 defaults] h
  have "reconnectAttemptsRef (onopen 3 thirdRetry) = 0
      \<and> timeouts (disconnects defaults 10 (onopen 3 thirdRetry)) = [(13, 3000)]
      \<and> timeouts (disconnects defaults 11 (onopen 3 thirdRetry)) = []
      \<and> reconnectAttemptsRef (disconnects defaults 11 (onopen 3 thirdRetry)) = 10"
    unfolding eleven by (simp add: cap interval before)
  with h before cap show ?thesis by simp
qed

text \<open>
  C7. The cleanup clears the pending timer and closes the socket, but the \<open>onclose\<close>
  handler stays attached: when the close event of that socket arrives, the handler finds
  the counter below the cap, schedules a reconnection, and the timer opens a new socket.
  On a connected hook with the default options:
\<close>

theorem teardown_is_followed_by_a_reconnection:
  "sockets (cleanup connected) = [CLOSING]
   \<and> timeouts (cleanup connected) = []
   \<and> timeouts (onclose defaults 0 (cleanup connected)) = [(1, 3000)]
   \<and> sockets (retry (onclose defaults 0 (cleanup connected))) = [CLOSED, CONNECTING]"
  by code_simp

section \<open>Parameter controls: \<open>ParameterSelect\<close> (\<open>src/unnamed/part_008\<close>) and \<open>ParameterSlider\<close> (\<open>src/unnamed/part_009\<close>)\<close>

subsection \<open>\<open>parseFloat\<close>\<close>

text \<open>
  \<open>parseFloat\<close> is a function of the language, not of this repository. It is modelled
  after its definition in ECMAScript: leading white space is dropped, the longest prefix of
  the rest that is a \<open>StrDecimalLiteral\<close> is taken, the result is \<open>NaN\<close> when there is no
  such prefix, and otherwise the double nearest to the value of the literal (ties to the
  even significand, infinity beyond the largest double, zero below half the smallest). A
  \<open>string\<close> is a sequence of code units below 256; the white space among these is
  \<open>U+0009\<close> to \<open>U+000D\<close>, \<open>U+0020\<close> and \<open>U+00A0\<close>.
\<close>

definition isWhiteSpace :: "char \<Rightarrow> bool" where
  "isWhiteSpace c \<longleftrightarrow> of_char c \<in> {9, 10, 11, 12, 13, 32, 160 :: nat}"

definition isDigit :: "char \<Rightarrow> bool" where
  "isDigit c \<longleftrightarrow> c \<in> set ''0123456789''"

definition digitValue :: "char \<Rightarrow> int" where
  "digitValue c = of_char c - 48"

definition decimalValue :: "string \<Rightarrow> int" where
  "decimalValue ds = fold (\<lambda>c n. 10 * n + digitValue c) ds 0"

text \<open>The exponent that the longest \<open>ExponentPart\<close> at the head of a string gives; zero
  when there is none.\<close>

definition unsignedExponent :: "string \<Rightarrow> int option" where
  "unsignedExponent s =
     (if takeWhile isDigit s = [] then None else Some (decimalValue (takeWhile isDigit s)))"

definition exponentPart :: "string \<Rightarrow> int" where
  "exponentPart s =
     (case s of
        [] \<Rightarrow> 0
      | c # r \<Rightarrow>
          if c = CHR ''e'' \<or> c = CHR ''E'' then
            (case r of
               [] \<Rightarrow> 0
             | c2 # ds \<Rightarrow>
                 if c2 = CHR ''+'' then (case unsignedExponent ds of None \<Rightarrow> 0 | Some e \<Rightarrow> e)
                 else if c2 = CHR ''-'' then (case unsignedExponent ds of None \<Rightarrow> 0 | Some e \<Rightarrow> - e)
                 else (case unsignedExponent r of None \<Rightarrow> 0 | Some e \<Rightarrow> e))
          else 0)"

definition timesPowerOfTen :: "rat \<Rightarrow> int \<Rightarrow> rat" where
  "timesPowerOfTen m e = (if 0 \<le> e then m * 10 ^ nat e else m / 10 ^ nat (- e))"

text \<open>Rounding a rational that is not negative to a double.\<close>

function bitLength :: "int \<Rightarrow> int" where
  "bitLength n = (if n \<le> 0 then 0 else 1 + bitLength (n div 2))"
  by pat_completeness auto
termination
  by (relation "measure nat") auto

declare bitLength.simps [simp del]

definition twoToThe :: "int \<Rightarrow> rat" where
  "twoToThe e = (if 0 \<le> e then 2 ^ nat e else 1 / 2 ^ nat (- e))"

text \<open>The \<open>e\<close> with \<open>2 ^ e \<le> q < 2 ^ (e + 1)\<close>, for a positive \<open>q\<close>.\<close>

definition floorLog2 :: "rat \<Rightarrow> int" where
  "floorLog2 q =
     (case quotient_of q of
        (a, b) \<Rightarrow>
          let d = bitLength a - bitLength b
          in if twoToThe d \<le> q then d else d - 1)"

definition roundHalfEven :: "rat \<Rightarrow> int" where
  "roundHalfEven x =
     (let f = \<lfloor>x\<rfloor>; d = x - of_int f
      in if d < 1 / 2 then f else if 1 / 2 < d then f + 1 else if even f then f else f + 1)"

text \<open>
  A double has 53 significant bits and exponents from \<open>-1022\<close> (below which the spacing
  stays \<open>2 ^ -1074\<close>) to \<open>1023\<close>. With \<open>2 ^ e \<le> q < 2 ^ (e + 1)\<close> the doubles around
  \<open>q\<close> are the multiples \<open>n * 2 ^ (e - 52)\<close>; the nearest one is infinite when it is
  \<open>2 ^ 1024\<close> or more, that is, when \<open>e\<close> is above \<open>1023\<close>, or \<open>e\<close> is \<open>1023\<close> and
  \<open>n\<close> has been rounded up to \<open>2 ^ 53\<close>.
\<close>

definition toDouble :: "rat \<Rightarrow> number" where
  "toDouble q =
     (if q = 0 then Finite 0
      else
        let e = max (floorLog2 q) (- 1022) in
        if 1023 < e then PlusInfinity
        else
          let ulp = twoToThe (e - 52);
              n = roundHalfEven (q / ulp)
          in if e = 1023 \<and> n = 2 ^ 53 then PlusInfinity else Finite (of_int n * ulp))"

definition strUnsignedDecimalLiteral :: "string \<Rightarrow> number" where
  "strUnsignedDecimalLiteral s =
     (if take 8 s = ''Infinity'' then PlusInfinity
      else
        let intPart = takeWhile isDigit s; r1 = dropWhile isDigit s in
        case r1 of
          [] \<Rightarrow> if intPart = [] then NotANumber else toDouble (of_int (decimalValue intPart))
        | c # r2 \<Rightarrow>
            if c = CHR ''.'' then
              let fracPart = takeWhile isDigit r2; r3 = dropWhile isDigit r2 in
              if intPart = [] \<and> fracPart = [] then NotANumber
              else toDouble (timesPowerOfTen
                     (of_int (decimalValue intPart) + of_int (decimalValue fracPart) / 10 ^ length fracPart)
                     (exponentPart r3))
            else if intPart = [] then NotANumber
            else toDouble (timesPowerOfTen (of_int (decimalValue intPart)) (exponentPart r1)))"

fun negate :: "number \<Rightarrow> number" where
  "negate (Finite q) = (if q = 0 then MinusZero else Finite (- q))"
| "negate MinusZero = Finite 0"
| "negate PlusInfinity = MinusInfinity"
| "negate MinusInfinity = PlusInfinity"
| "negate NotANumber = NotANumber"

definition parseFloat :: "string \<Rightarrow> number" where
  "parseFloat s =
     (case dropWhile isWhiteSpace s of
        [] \<Rightarrow> NotANumber
      | c # r \<Rightarrow>
          if c = CHR ''+'' then strUnsignedDecimalLiteral r
          else if c = CHR ''-'' then negate (strUnsignedDecimalLiteral r)
          else strUnsignedDecimalLiteral (c # r))"

definition isNaN :: "number \<Rightarrow> bool" where
  "isNaN x \<longleftrightarrow> x = NotANumber"

subsection \<open>\<open>ParameterSelect\<close>\<close>

text \<open>\<open>handleChange\<close> of the select, as the value it passes to \<open>onChange\<close>.\<close>

definition handleChange_select :: "string \<Rightarrow> param_value" where
  "handleChange_select rawValue =
     (let numValue = parseFloat rawValue;
          newValue = (if \<not> isNaN numValue then NumberValue numValue else StringValue rawValue)
      in newValue)"

subsection \<open>\<open>ParameterSlider\<close>\<close>

text \<open>
  The slider with the part of the browser it talks to: a clock in milliseconds, the
  timeouts that are scheduled and have neither fired nor been cleared (handle, due time
  and the \<open>newValue\<close> their closure holds), and the calls of \<open>onChange\<close> made so far.
  Timer handles are positive integers.
\<close>

record slider =
  localValue :: number
  debounceRef :: "nat option"
  pending :: "(nat \<times> nat \<times> number) list"
  issued :: nat
  clock :: nat
  delivered :: "number list"

text \<open>The default of the destructuring: \<open>debounceMs = 150\<close>.\<close>

definition debounceMsOf :: "nat option \<Rightarrow> nat" where
  "debounceMsOf prop = (case prop of None \<Rightarrow> 150 | Some ms \<Rightarrow> ms)"

definition clearTimeout_slider :: "nat \<Rightarrow> slider \<Rightarrow> slider" where
  "clearTimeout_slider t s = s\<lparr>pending := filter (\<lambda>(h, due, v). h \<noteq> t) (pending s)\<rparr>"

definition setTimeout_slider :: "number \<Rightarrow> nat \<Rightarrow> slider \<Rightarrow> nat \<times> slider" where
  "setTimeout_slider v delay s =
     (Suc (issued s),
      s\<lparr>pending := pending s @ [(Suc (issued s), clock s + delay, v)], issued := Suc (issued s)\<rparr>)"

definition handleChange_slider :: "nat \<Rightarrow> string \<Rightarrow> slider \<Rightarrow> slider" where
  "handleChange_slider debounceMs rawValue s =
     (let newValue = parseFloat rawValue;
          s1 = s\<lparr>localValue := newValue\<rparr>;
          s2 = (case debounceRef s1 of
                  None \<Rightarrow> s1
                | Some t \<Rightarrow> if t \<noteq> 0 then clearTimeout_slider t s1 else s1)
      in case setTimeout_slider newValue debounceMs s2 of
           (t, s3) \<Rightarrow> s3\<lparr>debounceRef := Some t\<rparr>)"

text \<open>
  Time passes: the clock advances by \<open>d\<close> milliseconds and every timeout that is due by
  then fires, earliest first; a timeout that fires calls \<open>onChange\<close> with its value.
\<close>

definition elapse :: "nat \<Rightarrow> slider \<Rightarrow> slider" where
  "elapse d s =
     (let now = clock s + d;
          due = filter (\<lambda>(h, t, v). t \<le> now) (pending s)
      in s\<lparr>clock := now,
           delivered := delivered s @ map (\<lambda>(h, t, v). v) (sort_key (\<lambda>(h, t, v). t) due),
           pending := filter (\<lambda>(h, t, v). \<not> t \<le> now) (pending s)\<rparr>)"

text \<open>The cleanup on unmount.\<close>

definition cleanup_slider :: "slider \<Rightarrow> slider" where
  "cleanup_slider s =
     (case debounceRef s of
        None \<Rightarrow> s
      | Some t \<Rightarrow> if t \<noteq> 0 then clearTimeout_slider t s else s)"

text \<open>Changes that follow one another, each given with the time since the one before.\<close>

fun changes :: "nat \<Rightarrow> (nat \<times> string) list \<Rightarrow> slider \<Rightarrow> slider" where
  "changes debounceMs [] s = s"
| "changes debounceMs ((gap, rawValue) # rest) s =
     changes debounceMs rest (handleChange_slider debounceMs rawValue (elapse gap s))"

text \<open>A burst: a first change and the changes that follow it.\<close>

definition burst :: "nat \<Rightarrow> string \<Rightarrow> (nat \<times> string) list \<Rightarrow> slider \<Rightarrow> slider" where
  "burst debounceMs rawValue rest s = changes debounceMs rest (handleChange_slider debounceMs rawValue s)"

definition idleSlider :: slider where
  "idleSlider = \<lparr>localValue = Finite 0, debounceRef = None, pending = [], issued = 0,
     clock = 0, delivered = []\<rparr>"

section \<open>Parameter controls: properties\<close>

lemma toDouble_not_NaN: "toDouble q \<noteq> NotANumber"
  by (simp add: toDouble_def Let_def)

lemma parseFloat_digit:
  assumes "isDigit c"
  shows "parseFloat (c # r) \<noteq> NotANumber"
proof -
  have c: "\<not> isWhiteSpace c" "c \<noteq> CHR ''+''" "c \<noteq> CHR ''-''" "c \<noteq> CHR ''I''"
    using assms by (auto simp: isDigit_def isWhiteSpace_def)
  have inf: "take 8 (c # r) \<noteq> ''Infinity''"
    using c(4) by (simp add: take_Cons')
  have ip: "takeWhile isDigit (c # r) \<noteq> []"
    using assms by simp
  define intPart where "intPart = takeWhile isDigit (c # r)"
  define r1 where "r1 = dropWhile isDigit (c # r)"
  have lit: "strUnsignedDecimalLiteral (c # r) =
     (case r1 of
        [] \<Rightarrow> if intPart = [] then NotANumber else toDouble (of_int (decimalValue intPart))
      | c' # r2 \<Rightarrow>
          if c' = CHR ''.'' then
            if intPart = [] \<and> takeWhile isDigit r2 = [] then NotANumber
            else toDouble (timesPowerOfTen
                   (of_int (decimalValue intPart)
                      + of_int (decimalValue (takeWhile isDigit r2)) / 10 ^ length (takeWhile isDigit r2))
                   (exponentPart (dropWhile isDigit r2)))
          else if intPart = [] then NotANumber
          else toDouble (timesPowerOfTen (of_int (decimalValue intPart)) (exponentPart r1)))"
    unfolding strUnsignedDecimalLiteral_def Let_def intPart_def r1_def using inf
    by (simp only: if_False)
  have "intPart \<noteq> []" unfolding intPart_def by (rule ip)
  then have "strUnsignedDecimalLiteral (c # r) \<noteq> NotANumber"
    unfolding lit by (cases r1) (simp_all add: toDouble_not_NaN)
  with c show ?thesis by (simp add: parseFloat_def)
qed

text \<open>
  C10. The value that \<open>ParameterSelect\<close> passes to \<open>onChange\<close> is \<open>parseFloat\<close> of the
  option's string when that is not \<open>NaN\<close>, and the string itself otherwise. So an
  option that starts with a digit is passed on as a number, never as the string: \<open>2x\<close>
  becomes \<open>2\<close>.
\<close>

theorem select_delivers_parsed_prefix:
  "handleChange_select rawValue =
       (if isNaN (parseFloat rawValue) then StringValue rawValue else NumberValue (parseFloat rawValue))
   \<and> handleChange_select ''2x'' = NumberValue (Finite 2)
   \<and> (isDigit c \<longrightarrow>
        handleChange_select (c # r) = NumberValue (parseFloat (c # r)) \<and> \<not> isNaN (parseFloat (c # r)))"
proof -
  have general: "handleChange_select rawValue =
       (if isNaN (parseFloat rawValue) then StringValue rawValue else NumberValue (parseFloat rawValue))"
    for rawValue
    by (simp add: handleChange_select_def Let_def)
  have two: "handleChange_select ''2x'' = NumberValue (Finite 2)"
    by code_simp
  have "handleChange_select (c # r) = NumberValue (parseFloat (c # r)) \<and> \<not> isNaN (parseFloat (c # r))"
    if "isDigit c"
    using parseFloat_digit [OF that, of r] by (simp add: general isNaN_def)
  with general two show ?thesis by blast
qed

text \<open>
  The property at three options: a digit followed by text, a string with no numeric
  prefix, and a literal beyond the largest double, which is passed on as infinity.
\<close>

theorem select_delivers_parsed_prefix_witness:
  "isDigit CHR ''7'' \<and> handleChange_select ''7 rows'' = NumberValue (Finite 7)
   \<and> handleChange_select ''rows'' = StringValue ''rows''
   \<and> isDigit CHR ''1'' \<and> handleChange_select ''1e400'' = NumberValue PlusInfinity"
proof -
  have d: "isDigit CHR ''7''" "isDigit CHR ''1''" by (simp_all add: isDigit_def)
  have v: "handleChange_select ''7 rows'' = NumberValue (Finite 7)"
    "handleChange_select ''rows'' = StringValue ''rows''"
    "handleChange_select ''1e400'' = NumberValue PlusInfinity" by code_simp+
  from select_delivers_parsed_prefix [of "''7 rows''" "CHR ''7''" "'' rows''"] d v
  show ?thesis by blast
qed

text \<open>A slider that waits: its newest timeout is the only one, and it is not yet due.\<close>

definition waitingFor :: "nat \<Rightarrow> number \<Rightarrow> slider \<Rightarrow> bool" where
  "waitingFor debounceMs v s \<longleftrightarrow>
     pending s = [(issued s, clock s + debounceMs, v)] \<and> debounceRef s = Some (issued s)
     \<and> issued s \<noteq> 0 \<and> localValue s = v"

lemma handleChange_idle:
  assumes "pending s = []"
  shows "waitingFor ms (parseFloat raw) (handleChange_slider ms raw s)"
    and "delivered (handleChange_slider ms raw s) = delivered s"
  using assms
  by (auto simp: handleChange_slider_def waitingFor_def clearTimeout_slider_def
      setTimeout_slider_def Let_def split: option.splits)

lemma elapse_early:
  assumes "waitingFor ms v s" and "d < ms"
  shows "elapse d s = s\<lparr>clock := clock s + d\<rparr>"
  using assms by (simp add: elapse_def waitingFor_def Let_def)

lemma elapse_late:
  assumes "waitingFor ms v s" and "ms \<le> d"
  shows "elapse d s = s\<lparr>clock := clock s + d, delivered := delivered s @ [v], pending := []\<rparr>"
  using assms by (simp add: elapse_def waitingFor_def Let_def)

lemma handleChange_waiting:
  assumes "waitingFor ms v s" and "gap < ms"
  shows "waitingFor ms (parseFloat raw) (handleChange_slider ms raw (elapse gap s))"
    and "delivered (handleChange_slider ms raw (elapse gap s)) = delivered s"
  using assms unfolding elapse_early [OF assms]
  by (auto simp: handleChange_slider_def waitingFor_def clearTimeout_slider_def
      setTimeout_slider_def Let_def)

lemma changes_waiting:
  "waitingFor ms v s \<Longrightarrow> \<forall>(gap, raw)\<in>set cs. gap < ms \<Longrightarrow>
     waitingFor ms (if cs = [] then v else parseFloat (snd (last cs))) (changes ms cs s)
     \<and> delivered (changes ms cs s) = delivered s"
proof (induction cs arbitrary: s v)
  case Nil
  then show ?case by simp
next
  case (Cons c cs)
  obtain gap raw where c: "c = (gap, raw)" by (cases c)
  from Cons.prems(2) c have gap: "gap < ms" and rest: "\<forall>(gap, raw)\<in>set cs. gap < ms"
    by auto
  from handleChange_waiting [OF Cons.prems(1) gap, of raw]
  have w: "waitingFor ms (parseFloat raw) (handleChange_slider ms raw (elapse gap s))"
    and d: "delivered (handleChange_slider ms raw (elapse gap s)) = delivered s"
    by blast+
  from Cons.IH [OF w rest] d show ?case
    by (cases "cs = []") (simp_all add: c)
qed

text \<open>
  C9. Every change sets the local value at once. In a burst, where each change follows the
  one before by less than the quiet window, no call of \<open>onChange\<close> is made; none is made
  before the window (150 ms by default) has passed since the last change; and when it has
  passed, exactly one call is made, with the last value of the burst.
\<close>

theorem debounce_delivers_last_value:
  "localValue (handleChange_slider debounceMs rawValue s') = parseFloat rawValue
   \<and> debounceMsOf None = 150
   \<and> (pending s = [] \<and> (\<forall>(gap, raw)\<in>set rest. gap < debounceMs) \<longrightarrow>
        localValue (burst debounceMs raw0 rest s) = parseFloat (snd (last ((0, raw0) # rest)))
        \<and> delivered (burst debounceMs raw0 rest s) = delivered s
        \<and> (d < debounceMs \<longrightarrow> delivered (elapse d (burst debounceMs raw0 rest s)) = delivered s)
        \<and> (debounceMs \<le> d \<longrightarrow>
             delivered (elapse d (burst debounceMs raw0 rest s))
               = delivered s @ [parseFloat (snd (last ((0, raw0) # rest)))]
             \<and> pending (elapse d (burst debounceMs raw0 rest s)) = []))"
proof -
  let ?v = "parseFloat (snd (last ((0, raw0) # rest)))"
  let ?s = "burst debounceMs raw0 rest s"
  have now: "localValue (handleChange_slider debounceMs rawValue s') = parseFloat rawValue"
    by (simp add: handleChange_slider_def setTimeout_slider_def clearTimeout_slider_def Let_def
        split: option.splits)
  have dflt: "debounceMsOf None = 150" by (simp add: debounceMsOf_def)
  have "localValue ?s = ?v \<and> delivered ?s = delivered s
        \<and> (d < debounceMs \<longrightarrow> delivered (elapse d ?s) = delivered s)
        \<and> (debounceMs \<le> d \<longrightarrow>
             delivered (elapse d ?s) = delivered s @ [?v] \<and> pending (elapse d ?s) = [])"
    if idle: "pending s = []" and gaps: "\<forall>(gap, raw)\<in>set rest. gap < debounceMs"
  proof -
    from handleChange_idle [OF idle, of debounceMs raw0]
    have w0: "waitingFor debounceMs (parseFloat raw0) (handleChange_slider debounceMs raw0 s)"
      and d0: "delivered (handleChange_slider debounceMs raw0 s) = delivered s"
      by blast+
    from changes_waiting [OF w0 gaps] d0
    have w: "waitingFor debounceMs ?v ?s" and del: "delivered ?s = delivered s"
      by (cases "rest = []"; simp add: burst_def)+
    have early: "delivered (elapse d ?s) = delivered s" if "d < debounceMs"
      by (simp add: elapse_early [OF w that] del)
    have late: "delivered (elapse d ?s) = delivered s @ [?v] \<and> pending (elapse d ?s) = []"
      if "debounceMs \<le> d"
      by (simp add: elapse_late [OF w that] del)
    from w have "localValue ?s = ?v" by (simp add: waitingFor_def)
    with del early late show ?thesis by blast
  qed
  with now dflt show ?thesis by blast
qed

theorem debounce_delivers_last_value_witness:
  "pending idleSlider = []
   \<and> list_all (\<lambda>(gap, raw). gap < debounceMsOf None) [(40, ''0.5''), (149, ''0.75'')]
   \<and> localValue (burst (debounceMsOf None) ''0.25'' [(40, ''0.5''), (149, ''0.75'')] idleSlider) = Finite (3 / 4)
   \<and> delivered (elapse 149 (burst (debounceMsOf None) ''0.25'' [(40, ''0.5''), (149, ''0.75'')] idleSlider)) = []
   \<and> delivered (elapse 150 (burst (debounceMsOf None) ''0.25'' [(40, ''0.5''), (149, ''0.75'')] idleSlider)) = [Finite (3 / 4)]"
proof -
  have p: "pending idleSlider = []" by (simp add: idleSlider_def)
  have ms: "debounceMsOf None = 150" by (simp add: debounceMsOf_def)
  have g: "\<forall>(gap, raw)\<in>set [(40, ''0.5''), (149, ''0.75'')]. gap < debounceMsOf None"
    by (simp add: ms)
  have v: "parseFloat (snd (last [(0::nat, ''0.25''), (40, ''0.5''), (149, ''0.75'')])) = Finite (3 / 4)"
    by code_simp
  have idle: "delivered idleSlider = []" by (simp add: idleSlider_def)
  from debounce_delivers_last_value
         [of "debounceMsOf None" "''0.25''" idleSlider idleSlider "[(40, ''0.5''), (149, ''0.75'')]" "''0.25''" 149]
       debounce_delivers_last_value
         [of "debounceMsOf None" "''0.25''" idleSlider idleSlider "[(40, ''0.5''), (149, ''0.75'')]" "''0.25''" 150]
       p g
  show ?thesis
    unfolding v idle by (simp add: ms)
qed

end
